theory Spec2Isabelle
  imports Main "HOL-Library.AList" "HOL-Library.Sublist"
begin

section \<open>Data model of the style pane\<close>

text \<open>
  The development embeds \<^verbatim>\<open>studio/feature/stylepane.py\<close>: the pool of reusable
  style items (\<^verbatim>\<open>ReusableStyleItem\<close>), the style groups and the pane. Python objects
  live in a store: a row object is a reference (an index into \<open>rows\<close>), so that the pool
  and a group's \<open>items\<close> alias the same row. A dict is an association list in insertion
  order, read with \<open>map_of\<close> and written with \<open>AList.update\<close>. A raised exception is the
  value \<open>Raise e\<close>, returned together with the state as the statements before the raise
  left it.
\<close>

datatype exn = TypeError | AttributeError | KeyError string | TclError string

datatype 'a result = Ok 'a | Raise exn

text \<open>
  Keys of the pool's inner dicts. Rows are registered under property names; \<^verbatim>\<open>destroy\<close>
  asks for the row object itself as a key (\<^verbatim>\<open>self in pool\<close>), which is a different
  Python value.
\<close>

datatype pykey = KStr string | KRow nat

record style_definition =
  def_name :: string
  def_display_name :: string
  def_value :: string

type_synonym definitions = "(string \<times> style_definition) list"

text \<open>A change callback; the groups install their bound method \<^verbatim>\<open>self.apply\<close>.\<close>

datatype callback = GroupApply nat | Handler nat

record row =
  parent :: nat
  row_name :: string
  row_definition :: style_definition
  editor_value :: string
  label_text :: string
  on_change :: "callback option"
  is_available :: bool
  destroyed :: bool

datatype pyclass = NoneType | Class string

record layout_strategy =
  strategy_class :: string
  strategy_name :: string

text \<open>
  The selected object as the groups see it: its identity (\<^verbatim>\<open>==\<close>), its class, the
  attributes \<^verbatim>\<open>identity\<close> and \<^verbatim>\<open>properties\<close> (\<open>None\<close> when \<^verbatim>\<open>hasattr\<close> is false) and its
  layout facet.
\<close>

record widget =
  wid :: nat
  wclass :: string
  w_identity :: "definitions option"
  w_properties :: "definitions option"
  w_layout_strategy :: layout_strategy
  w_layout_definition :: definitions

datatype group_class = StyleGroup | IdentityGroup | AttributeGroup | LayoutGroup

record group =
  g_class :: group_class
  g_widget :: "widget option"
  prev_widget :: "widget option"
  has_initialized :: bool
  items :: "(string \<times> nat) list"
  prev_layout :: "layout_strategy option"
  g_label :: string
  collapsed :: bool

datatype placeholder = NoPlaceholder | EmptyPlaceholder | LoadingPlaceholder

datatype log_entry =
  LogException exn
  | LogStyleFailure string string
  | LogLayoutFailure exn string string

record state =
  rows :: "row list"
  pool :: "(nat \<times> (pykey \<times> nat) list) list"
  groups :: "group list"
  log_entries :: "log_entry list"
  current :: "widget option"
  placeholder :: placeholder

section \<open>ReusableStyleItem\<close>

text \<open>
  A reference designates an object when it is below the length of the store. References
  are only produced by \<open>new_item\<close>, so a method is never called on any other; the
  functions leave the state unchanged there.
\<close>

definition get_row :: "state \<Rightarrow> nat \<Rightarrow> row option" where
  "get_row s r = (if r < length (rows s) then Some (rows s ! r) else None)"

definition update_row :: "nat \<Rightarrow> (row \<Rightarrow> row) \<Rightarrow> state \<Rightarrow> state" where
  "update_row r f s =
     (case get_row s r of
        None \<Rightarrow> s
      | Some x \<Rightarrow> s\<lparr>rows := (rows s)[r := f x]\<rparr>)"

text \<open>\<^verbatim>\<open>_make_available\<close>, the handler bound to \<^verbatim>\<open><Unmap>\<close> (True) and \<^verbatim>\<open><Map>\<close> (False).\<close>

definition make_available :: "nat \<Rightarrow> bool \<Rightarrow> state \<Rightarrow> state" where
  "make_available r flag s = update_row r (\<lambda>x. x\<lparr>is_available := flag\<rparr>) s"

text \<open>
  \<^verbatim>\<open>ReusableStyleItem.__init__\<close>. Modelled from the spec: the constructor of the base
  class \<^verbatim>\<open>StyleItem\<close> (module \<^verbatim>\<open>studio.ui.editors\<close>) binds the new row to the definition
  (key, value, label) and installs the callback. The row is then marked available and
  registered at \<^verbatim>\<open>_pool[parent][name]\<close>; \<^verbatim>\<open>_pool\<close> is a defaultdict, so a missing
  inner dict is created.
\<close>

definition new_item :: "nat \<Rightarrow> style_definition \<Rightarrow> callback option \<Rightarrow> state \<Rightarrow> nat \<times> state" where
  "new_item p d cb s =
     (let r = length (rows s);
          x = \<lparr>parent = p, row_name = def_name d, row_definition = d,
               editor_value = def_value d, label_text = def_display_name d,
               on_change = cb, is_available = True, destroyed = False\<rparr>;
          inner = (case map_of (pool s) p of None \<Rightarrow> [] | Some q \<Rightarrow> q)
      in (r, s\<lparr>rows := rows s @ [x],
               pool := AList.update p (AList.update (KStr (def_name d)) r inner) (pool s)\<rparr>))"

text \<open>
  \<^verbatim>\<open>_re_purposed\<close>, on the row. \<open>block\<close> is lines 32 to 37: install the new callback
  when one is given, save the callback in \<^verbatim>\<open>temp\<close> and set it to None.
  \<open>reassign_trace\<close> lists the row after each statement of lines 37 to 41; the parameter
  \<open>E\<close> is the outcome of the editor's \<^verbatim>\<open>set\<close> (the editors are not part of this module):
  \<open>Some e\<close> when it raises \<open>e\<close>. Hooking the editor (line 40) changes nothing the model
  holds.
\<close>

definition block :: "callback option \<Rightarrow> row \<Rightarrow> callback option \<times> row" where
  "block cb x =
     (let x1 = (case cb of None \<Rightarrow> x | Some c \<Rightarrow> x\<lparr>on_change := Some c\<rparr>)
      in (on_change x1, x1\<lparr>on_change := None\<rparr>))"

definition reassign_trace :: "(row \<Rightarrow> string \<Rightarrow> exn option) \<Rightarrow> style_definition \<Rightarrow> row \<Rightarrow> row list" where
  "reassign_trace E d x0 =
     (let x1 = x0\<lparr>row_name := def_name d\<rparr> in
      case E x1 (def_value d) of
        Some e \<Rightarrow> [x0, x1]
      | None \<Rightarrow>
          (let x2 = x1\<lparr>editor_value := def_value d\<rparr>;
               x3 = x2\<lparr>label_text := def_display_name d\<rparr>
           in [x0, x1, x2, x3]))"

definition re_purposed_row :: "(row \<Rightarrow> string \<Rightarrow> exn option) \<Rightarrow> style_definition \<Rightarrow> callback option \<Rightarrow> row \<Rightarrow> unit result \<times> row" where
  "re_purposed_row E d cb x =
     (let (temp, x0) = block cb x;
          y = last (reassign_trace E d x0)
      in case E (x0\<lparr>row_name := def_name d\<rparr>) (def_value d) of
           Some e \<Rightarrow> (Raise e, y)
         | None \<Rightarrow> (Ok (), y\<lparr>on_change := temp\<rparr>))"

definition re_purposed :: "(row \<Rightarrow> string \<Rightarrow> exn option) \<Rightarrow> nat \<Rightarrow> style_definition \<Rightarrow> callback option \<Rightarrow> state \<Rightarrow> nat result \<times> state" where
  "re_purposed E r d cb s =
     (case get_row s r of
        None \<Rightarrow> (Ok r, s)
      | Some x \<Rightarrow>
          (case re_purposed_row E d cb x of
             (Raise e, y) \<Rightarrow> (Raise e, update_row r (\<lambda>_. y) s)
           | (Ok _, y) \<Rightarrow> (Ok r, update_row r (\<lambda>_. y) s)))"

text \<open>
  \<^verbatim>\<open>destroy\<close>. \<^verbatim>\<open>self._pool[self.parent]\<close> creates a missing inner dict; \<^verbatim>\<open>self in pool\<close>
  tests whether the row object is a key of that dict and \<^verbatim>\<open>pool.pop(self)\<close> removes that
  key. The base class then destroys the widget.
\<close>

definition destroy :: "nat \<Rightarrow> state \<Rightarrow> state" where
  "destroy r s =
     (case get_row s r of
        None \<Rightarrow> s
      | Some x \<Rightarrow>
          (let p = (case map_of (pool s) (parent x) of None \<Rightarrow> [] | Some q \<Rightarrow> q);
               p' = (if map_of p (KRow r) \<noteq> None then AList.delete (KRow r) p else p);
               s1 = s\<lparr>pool := AList.update (parent x) p' (pool s)\<rparr>
           in update_row r (\<lambda>y. y\<lparr>destroyed := True\<rparr>) s1))"

text \<open>
  \<^verbatim>\<open>acquire\<close>: \<^verbatim>\<open>_pool.get(parent)\<close> does not create an inner dict; \<^verbatim>\<open>if pool\<close> is false
  for None and for the empty dict; \<^verbatim>\<open>if item and item.is_available\<close> is false for None
  (a row object is true).
\<close>

definition acquire :: "(row \<Rightarrow> string \<Rightarrow> exn option) \<Rightarrow> nat \<Rightarrow> style_definition \<Rightarrow> callback option \<Rightarrow> state \<Rightarrow> nat result \<times> state" where
  "acquire E p d cb s =
     (let construct = (case new_item p d cb s of (r, s') \<Rightarrow> (Ok r, s')) in
      case map_of (pool s) p of
        None \<Rightarrow> construct
      | Some q \<Rightarrow>
          if q = [] then construct
          else
            (case map_of q (KStr (def_name d)) of
               None \<Rightarrow> construct
             | Some r \<Rightarrow>
                 (case get_row s r of
                    None \<Rightarrow> construct
                  | Some x \<Rightarrow>
                      if is_available x then re_purposed E r d cb s else construct)))"

text \<open>What the pool holds for a scope and a property name: \<^verbatim>\<open>_pool[scope][name]\<close>.\<close>

definition pool_lookup :: "state \<Rightarrow> nat \<Rightarrow> string \<Rightarrow> nat option" where
  "pool_lookup s p k =
     (case map_of (pool s) p of None \<Rightarrow> None | Some q \<Rightarrow> map_of q (KStr k))"

section \<open>StyleGroup and its specializations\<close>

text \<open>
  A group is designated by its position in \<open>groups\<close>; that position is also the scope
  under which its rows are pooled (the group passes \<^verbatim>\<open>self\<close> to \<^verbatim>\<open>acquire\<close>).
\<close>

definition get_group :: "state \<Rightarrow> nat \<Rightarrow> group option" where
  "get_group s g = (if g < length (groups s) then Some (groups s ! g) else None)"

definition update_group :: "nat \<Rightarrow> (group \<Rightarrow> group) \<Rightarrow> state \<Rightarrow> state" where
  "update_group g f s =
     (case get_group s g of
        None \<Rightarrow> s
      | Some gr \<Rightarrow> s\<lparr>groups := (groups s)[g := f gr]\<rparr>)"

text \<open>
  \<^verbatim>\<open>_show\<close> and \<^verbatim>\<open>_hide\<close>. Modelled from the spec: the rendering surface (the toolkit's
  \<^verbatim>\<open>pack\<close> and \<^verbatim>\<open>pack_forget\<close>) notifies a visibility change synchronously, so showing a
  row runs its \<^verbatim>\<open><Map>\<close> handler and hiding it runs its \<^verbatim>\<open><Unmap>\<close> handler.
\<close>

definition show_item :: "nat \<Rightarrow> state \<Rightarrow> state" where
  "show_item r s = make_available r False s"

definition hide_item :: "nat \<Rightarrow> state \<Rightarrow> state" where
  "hide_item r s = make_available r True s"

text \<open>
  Modelled from the spec: \<^verbatim>\<open>clear_children\<close> of \<^verbatim>\<open>CollapseFrame\<close> (module
  \<^verbatim>\<open>studio.ui.widgets\<close>) hides every row placed under the group, which marks each of
  them available; \<^verbatim>\<open>collapse\<close> hides the group's body and with it the rows.
\<close>

definition clear_children :: "nat \<Rightarrow> state \<Rightarrow> state" where
  "clear_children g s =
     s\<lparr>rows := map (\<lambda>x. if parent x = g then x\<lparr>is_available := True\<rparr> else x) (rows s)\<rparr>"

definition collapse :: "nat \<Rightarrow> state \<Rightarrow> state" where
  "collapse g s = update_group g (\<lambda>gr. gr\<lparr>collapsed := True\<rparr>) (clear_children g s)"

definition group_add :: "nat \<Rightarrow> nat \<Rightarrow> state \<Rightarrow> state" where
  "group_add g r s =
     (case get_row s r of
        None \<Rightarrow> s
      | Some x \<Rightarrow>
          show_item r (update_group g (\<lambda>gr. gr\<lparr>items := AList.update (row_name x) r (items gr)\<rparr>) s))"

definition group_remove :: "nat \<Rightarrow> nat \<Rightarrow> state \<Rightarrow> state" where
  "group_remove g r s =
     (case get_row s r of
        None \<Rightarrow> s
      | Some x \<Rightarrow>
          hide_item r
            (update_group g
               (\<lambda>gr. if map_of (items gr) (row_name x) \<noteq> None
                     then gr\<lparr>items := AList.delete (row_name x) (items gr)\<rparr> else gr) s))"

text \<open>
  \<^verbatim>\<open>get_definition\<close> of each class. The result \<open>None\<close> is Python's None: the identity
  group returns it when the widget has no attribute \<^verbatim>\<open>identity\<close>; the other classes
  return the empty dict.
\<close>

definition get_definition :: "group \<Rightarrow> definitions option" where
  "get_definition gr =
     (case g_class gr of
        StyleGroup \<Rightarrow> Some []
      | IdentityGroup \<Rightarrow>
          (case g_widget gr of None \<Rightarrow> None | Some w \<Rightarrow> w_identity w)
      | AttributeGroup \<Rightarrow>
          (case g_widget gr of
             None \<Rightarrow> Some []
           | Some w \<Rightarrow> (case w_properties w of None \<Rightarrow> Some [] | Some ds \<Rightarrow> Some ds))
      | LayoutGroup \<Rightarrow>
          (case g_widget gr of None \<Rightarrow> Some [] | Some w \<Rightarrow> Some (w_layout_definition w)))"

definition class_of_widget :: "widget option \<Rightarrow> pyclass" where
  "class_of_widget w = (case w of None \<Rightarrow> NoneType | Some x \<Rightarrow> Class (wclass x))"

definition class_of_strategy :: "layout_strategy option \<Rightarrow> pyclass" where
  "class_of_strategy l = (case l of None \<Rightarrow> NoneType | Some x \<Rightarrow> Class (strategy_class x))"

text \<open>\<^verbatim>\<open>==\<close> on the selected objects: object identity, and None equals only None.\<close>

definition same_object :: "widget option \<Rightarrow> widget option \<Rightarrow> bool" where
  "same_object a b =
     (case a of
        None \<Rightarrow> b = None
      | Some x \<Rightarrow> (case b of None \<Rightarrow> False | Some y \<Rightarrow> wid x = wid y))"

text \<open>
  \<^verbatim>\<open>can_optimize\<close> of each class. The layout group reads \<^verbatim>\<open>self.widget.layout\<close>, which
  raises AttributeError on None.
\<close>

definition can_optimize :: "group \<Rightarrow> bool result" where
  "can_optimize gr =
     (case g_class gr of
        StyleGroup \<Rightarrow> Ok False
      | IdentityGroup \<Rightarrow> Ok (has_initialized gr)
      | AttributeGroup \<Rightarrow>
          Ok (class_of_widget (g_widget gr) = class_of_widget (prev_widget gr)
              \<and> has_initialized gr)
      | LayoutGroup \<Rightarrow>
          (case g_widget gr of
             None \<Rightarrow> Raise AttributeError
           | Some w \<Rightarrow>
               Ok (Class (strategy_class (w_layout_strategy w)) = class_of_strategy (prev_layout gr)
                   \<and> same_object (g_widget gr) (prev_widget gr))))"

definition items_of :: "state \<Rightarrow> nat \<Rightarrow> (string \<times> nat) list" where
  "items_of s g = (case get_group s g of None \<Rightarrow> [] | Some gr \<Rightarrow> items gr)"

text \<open>
  The in-place refresh, lines 107 and 108: for every key of the definitions the row
  \<^verbatim>\<open>self.items[prop]\<close> (KeyError when absent) is re-purposed with no callback. The loop
  runs over the entries of the dict, whose keys are distinct.
\<close>

fun refresh_items :: "(row \<Rightarrow> string \<Rightarrow> exn option) \<Rightarrow> nat \<Rightarrow> definitions \<Rightarrow> state \<Rightarrow> unit result \<times> state" where
  "refresh_items E g [] s = (Ok (), s)"
| "refresh_items E g ((prop, d) # ds) s =
     (case map_of (items_of s g) prop of
        None \<Rightarrow> (Raise (KeyError prop), s)
      | Some r \<Rightarrow>
          (case re_purposed E r d None s of
             (Raise e, s') \<Rightarrow> (Raise e, s')
           | (Ok _, s') \<Rightarrow> refresh_items E g ds s'))"

text \<open>Iterating None (\<^verbatim>\<open>for prop in None\<close>, \<^verbatim>\<open>map(f, None)\<close>) raises TypeError.\<close>

definition refresh_rows :: "(row \<Rightarrow> string \<Rightarrow> exn option) \<Rightarrow> nat \<Rightarrow> definitions option \<Rightarrow> state \<Rightarrow> unit result \<times> state" where
  "refresh_rows E g defs s =
     (case defs of
        None \<Rightarrow> (Raise TypeError, s)
      | Some ds \<Rightarrow> refresh_items E g ds s)"

text \<open>
  The rebuild, lines 111 to 114: hide the children, clear \<^verbatim>\<open>items\<close>, then acquire a row
  for every definition with the group's \<^verbatim>\<open>apply\<close> as callback and add it.
\<close>

fun acquire_all :: "(row \<Rightarrow> string \<Rightarrow> exn option) \<Rightarrow> nat \<Rightarrow> definitions \<Rightarrow> state \<Rightarrow> unit result \<times> state" where
  "acquire_all E g [] s = (Ok (), s)"
| "acquire_all E g ((prop, d) # ds) s =
     (case acquire E g d (Some (GroupApply g)) s of
        (Raise e, s') \<Rightarrow> (Raise e, s')
      | (Ok r, s') \<Rightarrow> acquire_all E g ds (group_add g r s'))"

definition rebuild_rows :: "(row \<Rightarrow> string \<Rightarrow> exn option) \<Rightarrow> nat \<Rightarrow> definitions option \<Rightarrow> state \<Rightarrow> unit result \<times> state" where
  "rebuild_rows E g defs s =
     (let s1 = update_group g (\<lambda>gr. gr\<lparr>items := []\<rparr>) (clear_children g s) in
      case defs of
        None \<Rightarrow> (Raise TypeError, s1)
      | Some ds \<Rightarrow> acquire_all E g ds s1)"

text \<open>
  \<^verbatim>\<open>StyleGroup.on_widget_change\<close>, which every class runs (the layout group through
  \<^verbatim>\<open>super\<close>). \<open>mark_initialized\<close> is lines 116 and 117, reached when the refresh or
  the rebuild has not raised.
\<close>

definition mark_initialized :: "nat \<Rightarrow> widget option \<Rightarrow> unit result \<times> state \<Rightarrow> unit result \<times> state" where
  "mark_initialized g w out =
     (case out of
        (Raise e, s2) \<Rightarrow> (Raise e, s2)
      | (Ok _, s2) \<Rightarrow>
          (Ok (), update_group g (\<lambda>gr. gr\<lparr>has_initialized := True, prev_widget := w\<rparr>) s2))"

definition style_on_widget_change :: "(row \<Rightarrow> string \<Rightarrow> exn option) \<Rightarrow> nat \<Rightarrow> widget option \<Rightarrow> state \<Rightarrow> unit result \<times> state" where
  "style_on_widget_change E g w s =
     (let s1 = update_group g (\<lambda>gr. gr\<lparr>g_widget := w\<rparr>) s in
      case w of
        None \<Rightarrow> (Ok (), collapse g s1)
      | Some _ \<Rightarrow>
          (case get_group s1 g of
             None \<Rightarrow> (Ok (), s1)
           | Some gr \<Rightarrow>
               (let defs = get_definition gr in
                case can_optimize gr of
                  Raise e \<Rightarrow> (Raise e, s1)
                | Ok b \<Rightarrow>
                    mark_initialized g w
                      (if b then refresh_rows E g defs s1 else rebuild_rows E g defs s1))))"

text \<open>
  \<^verbatim>\<open>LayoutGroup.on_widget_change\<close>: after the inherited update, line 184 reads
  \<^verbatim>\<open>widget.layout.layout_strategy\<close> (AttributeError on None), then the label is set from
  the strategy's name when \<^verbatim>\<open>widget\<close> is true and to Layout otherwise.
\<close>

definition layout_label :: "widget option \<Rightarrow> string" where
  "layout_label w =
     (case w of
        Some x \<Rightarrow> ''Layout ('' @ strategy_name (w_layout_strategy x) @ '')''
      | None \<Rightarrow> ''Layout'')"

definition layout_after :: "nat \<Rightarrow> widget option \<Rightarrow> unit result \<times> state \<Rightarrow> unit result \<times> state" where
  "layout_after g w out =
     (case out of
        (Raise e, s1) \<Rightarrow> (Raise e, s1)
      | (Ok _, s1) \<Rightarrow>
          (case w of
             None \<Rightarrow> (Raise AttributeError, s1)
           | Some x \<Rightarrow>
               (let s2 = update_group g (\<lambda>gr. gr\<lparr>prev_layout := Some (w_layout_strategy x)\<rparr>) s1
                in (Ok (), update_group g (\<lambda>gr. gr\<lparr>g_label := layout_label w\<rparr>) s2))))"

definition layout_on_widget_change :: "(row \<Rightarrow> string \<Rightarrow> exn option) \<Rightarrow> nat \<Rightarrow> widget option \<Rightarrow> state \<Rightarrow> unit result \<times> state" where
  "layout_on_widget_change E g w s = layout_after g w (style_on_widget_change E g w s)"

definition on_widget_change :: "(row \<Rightarrow> string \<Rightarrow> exn option) \<Rightarrow> nat \<Rightarrow> widget option \<Rightarrow> state \<Rightarrow> unit result \<times> state" where
  "on_widget_change E g w s =
     (case get_group s g of
        None \<Rightarrow> (Ok (), s)
      | Some gr \<Rightarrow>
          if g_class gr = LayoutGroup then layout_on_widget_change E g w s
          else style_on_widget_change E g w s)"

text \<open>
  \<^verbatim>\<open>apply\<close>. The parameters give the outcome of the write on the selected object
  (\<^verbatim>\<open>widget.configure\<close>, and \<^verbatim>\<open>widget.layout.apply\<close> for the layout group): \<open>Some e\<close> when it
  raises the exception \<open>e\<close>. The object's own configuration is not part of the state.
\<close>

definition log_error :: "log_entry list \<Rightarrow> state \<Rightarrow> state" where
  "log_error es s = s\<lparr>log_entries := log_entries s @ es\<rparr>"

definition apply_style :: "(widget \<Rightarrow> string \<Rightarrow> string \<Rightarrow> exn option) \<Rightarrow> nat \<Rightarrow> string \<Rightarrow> string \<Rightarrow> state \<Rightarrow> unit result \<times> state" where
  "apply_style C g prop v s =
     (case get_group s g of
        None \<Rightarrow> (Ok (), s)
      | Some gr \<Rightarrow>
          (case g_widget gr of
             None \<Rightarrow> (Ok (), s)
           | Some w \<Rightarrow>
               (case C w prop v of
                  None \<Rightarrow> (Ok (), s)
                | Some e \<Rightarrow>
                    if v \<noteq> [] then (Ok (), log_error [LogException e, LogStyleFailure prop v] s)
                    else (Ok (), s))))"

definition apply_layout :: "(widget \<Rightarrow> string \<Rightarrow> string \<Rightarrow> exn option) \<Rightarrow> nat \<Rightarrow> string \<Rightarrow> string \<Rightarrow> state \<Rightarrow> unit result \<times> state" where
  "apply_layout L g prop v s =
     (case get_group s g of
        None \<Rightarrow> (Ok (), s)
      | Some gr \<Rightarrow>
          (case (case g_widget gr of None \<Rightarrow> Some AttributeError | Some w \<Rightarrow> L w prop v) of
             None \<Rightarrow> (Ok (), s)
           | Some e \<Rightarrow> (Ok (), log_error [LogLayoutFailure e prop v] s)))"

definition group_apply :: "(widget \<Rightarrow> string \<Rightarrow> string \<Rightarrow> exn option) \<Rightarrow> (widget \<Rightarrow> string \<Rightarrow> string \<Rightarrow> exn option) \<Rightarrow> nat \<Rightarrow> string \<Rightarrow> string \<Rightarrow> state \<Rightarrow> unit result \<times> state" where
  "group_apply C L g prop v s =
     (case get_group s g of
        None \<Rightarrow> (Ok (), s)
      | Some gr \<Rightarrow>
          if g_class gr = LayoutGroup then apply_layout L g prop v s
          else apply_style C g prop v s)"

text \<open>The filter: \<^verbatim>\<open>query in display_name\<close> is Python's substring test.\<close>

fun contains :: "string \<Rightarrow> string \<Rightarrow> bool" where
  "contains q [] = (q = [])"
| "contains q (c # cs) = (prefix q (c # cs) \<or> contains q cs)"

definition filter_item :: "string \<Rightarrow> nat \<Rightarrow> state \<Rightarrow> state" where
  "filter_item q r s =
     (case get_row s r of
        None \<Rightarrow> s
      | Some x \<Rightarrow>
          if contains q (def_display_name (row_definition x)) then show_item r s
          else hide_item r s)"

definition group_on_search_query :: "string \<Rightarrow> nat \<Rightarrow> state \<Rightarrow> state" where
  "group_on_search_query q g s = fold (filter_item q) (map snd (items_of s g)) s"

definition group_on_search_clear :: "nat \<Rightarrow> state \<Rightarrow> state" where
  "group_on_search_clear g s = group_on_search_query [] g s"

section \<open>StylePane\<close>

definition show_empty :: "state \<Rightarrow> state" where
  "show_empty s = s\<lparr>placeholder := EmptyPlaceholder\<rparr>"

definition remove_empty :: "state \<Rightarrow> state" where
  "remove_empty s = s\<lparr>placeholder := NoPlaceholder\<rparr>"

definition show_loading :: "state \<Rightarrow> state" where
  "show_loading s = s\<lparr>placeholder := LoadingPlaceholder\<rparr>"

text \<open>The loop of \<^verbatim>\<open>styles_for\<close> over \<^verbatim>\<open>self.groups\<close>; a raise ends it.\<close>

fun notify_groups :: "(row \<Rightarrow> string \<Rightarrow> exn option) \<Rightarrow> nat list \<Rightarrow> widget option \<Rightarrow> state \<Rightarrow> unit result \<times> state" where
  "notify_groups E [] w s = (Ok (), s)"
| "notify_groups E (g # gs) w s =
     (case on_widget_change E g w s of
        (Raise e, s') \<Rightarrow> (Raise e, s')
      | (Ok _, s') \<Rightarrow> notify_groups E gs w s')"

definition styles_for :: "(row \<Rightarrow> string \<Rightarrow> exn option) \<Rightarrow> widget option \<Rightarrow> state \<Rightarrow> unit result \<times> state" where
  "styles_for E w s =
     (let s1 = s\<lparr>current := w\<rparr> in
      case w of
        None \<Rightarrow> (Ok (), show_empty s1)
      | Some _ \<Rightarrow>
          (case notify_groups E [0..<length (groups s1)] w (show_loading s1) of
             (Raise e, s2) \<Rightarrow> (Raise e, s2)
           | (Ok _, s2) \<Rightarrow> (Ok (), remove_empty s2)))"

text \<open>\<^verbatim>\<open>self._layout_group\<close> is the second group the constructor adds.\<close>

definition layout_group :: nat where
  "layout_group = 1"

definition layout_for :: "(row \<Rightarrow> string \<Rightarrow> exn option) \<Rightarrow> widget option \<Rightarrow> state \<Rightarrow> unit result \<times> state" where
  "layout_for E w s = on_widget_change E layout_group w s"

definition pane_on_search_query :: "string \<Rightarrow> state \<Rightarrow> state" where
  "pane_on_search_query q s = fold (group_on_search_query q) [0..<length (groups s)] s"

definition pane_on_search_clear :: "state \<Rightarrow> state" where
  "pane_on_search_clear s = fold group_on_search_clear [0..<length (groups s)] s"

section \<open>The pane at start\<close>

definition new_group :: "group_class \<Rightarrow> string \<Rightarrow> group" where
  "new_group c l =
     \<lparr>g_class = c, g_widget = None, prev_widget = None, has_initialized = False,
      items = [], prev_layout = None, g_label = l, collapsed = False\<rparr>"

text \<open>
  \<^verbatim>\<open>StylePane.__init__\<close>: the identity, layout and attribute groups in this order, the
  empty placeholder shown and nothing selected. A group's scope is its position in
  \<open>groups\<close>.
\<close>

definition init_state :: state where
  "init_state =
     \<lparr>rows = [], pool = [],
      groups = [new_group IdentityGroup ''Widget identity'',
                new_group LayoutGroup ''Layout'',
                new_group AttributeGroup ''Attributes''],
      log_entries = [], current = None, placeholder = EmptyPlaceholder\<rparr>"

section \<open>Inputs used in the examples\<close>

text \<open>
  An editor that accepts every value and one that rejects every value; a selected object
  whose writes are all rejected; definitions and selected objects.
\<close>

definition accept :: "row \<Rightarrow> string \<Rightarrow> exn option" where
  "accept x v = None"

definition reject :: "row \<Rightarrow> string \<Rightarrow> exn option" where
  "reject x v = Some (TclError ''bad value'')"

definition refuse :: "widget \<Rightarrow> string \<Rightarrow> string \<Rightarrow> exn option" where
  "refuse w prop v = Some (TclError ''bad option'')"

definition color_red :: style_definition where
  "color_red = \<lparr>def_name = ''color'', def_display_name = ''Color'', def_value = ''red''\<rparr>"

definition color_blue :: style_definition where
  "color_blue = \<lparr>def_name = ''color'', def_display_name = ''Color'', def_value = ''blue''\<rparr>"

definition id_definition :: style_definition where
  "id_definition = \<lparr>def_name = ''id'', def_display_name = ''Widget Id'', def_value = ''button_1''\<rparr>"

text \<open>The pane after a first row has been constructed for scope 0 and not yet shown.\<close>

definition pooled_state :: state where
  "pooled_state = snd (acquire accept 0 color_red (Some (Handler 1)) init_state)"

definition pack_strategy :: layout_strategy where
  "pack_strategy = \<lparr>strategy_class = ''PackLayoutStrategy'', strategy_name = ''pack''\<rparr>"

text \<open>An object with neither \<^verbatim>\<open>identity\<close> nor \<^verbatim>\<open>properties\<close>, and one with both.\<close>

definition plain_widget :: widget where
  "plain_widget =
     \<lparr>wid = 1, wclass = ''Canvas'', w_identity = None, w_properties = None,
      w_layout_strategy = pack_strategy, w_layout_definition = []\<rparr>"

definition button_widget :: widget where
  "button_widget =
     \<lparr>wid = 2, wclass = ''Button'', w_identity = Some [(''id'', id_definition)],
      w_properties = Some [(''color'', color_red)],
      w_layout_strategy = pack_strategy, w_layout_definition = []\<rparr>"

text \<open>The pane after a layout change of an object has been routed to the layout group.\<close>

definition layout_selected :: state where
  "layout_selected = snd (layout_for accept (Some plain_widget) init_state)"

text \<open>The pane after an object with an identity and a property has been selected.\<close>

definition button_selected :: state where
  "button_selected = snd (styles_for accept (Some button_widget) init_state)"

definition layout_group_selected :: group where
  "layout_group_selected =
     \<lparr>g_class = LayoutGroup, g_widget = Some plain_widget, prev_widget = Some plain_widget,
      has_initialized = True, items = [], prev_layout = Some pack_strategy,
      g_label = ''Layout (pack)'', collapsed = False\<rparr>"

section \<open>Predicates of the specification\<close>

text \<open>
  The row the pool offers for a scope and a key: the row registered there, provided it
  exists and its available flag is true.
\<close>

definition available_row :: "state \<Rightarrow> nat \<Rightarrow> string \<Rightarrow> (nat \<times> row) option" where
  "available_row s p k =
     (case pool_lookup s p k of
        None \<Rightarrow> None
      | Some r \<Rightarrow>
          (case get_row s r of
             None \<Rightarrow> None
           | Some x \<Rightarrow> if is_available x then Some (r, x) else None))"

text \<open>The row a construction for scope \<open>p\<close> yields.\<close>

definition fresh_row :: "nat \<Rightarrow> style_definition \<Rightarrow> callback option \<Rightarrow> row" where
  "fresh_row p d cb =
     \<lparr>parent = p, row_name = def_name d, row_definition = d,
      editor_value = def_value d, label_text = def_display_name d,
      on_change = cb, is_available = True, destroyed = False\<rparr>"

text \<open>Every row the pool holds for a scope is an object of the store placed under that scope.\<close>

definition pool_wf :: "state \<Rightarrow> bool" where
  "pool_wf s =
     (\<forall>(p, q) \<in> set (pool s). \<forall>(k, r) \<in> set q.
        case get_row s r of None \<Rightarrow> False | Some x \<Rightarrow> parent x = p)"

text \<open>
  The predicate the specification gives for the layout group's fast path: the group is
  initialized, the class of the new object's layout strategy is the class of the strategy
  recorded at the previous change, and the new object is the previous object.
\<close>

definition spec_layout_can_optimize :: "group \<Rightarrow> widget \<Rightarrow> bool" where
  "spec_layout_can_optimize gr w =
     (has_initialized gr
      \<and> Class (strategy_class (w_layout_strategy w)) = class_of_strategy (prev_layout gr)
      \<and> same_object (Some w) (prev_widget gr))"

section \<open>Reachable states of the pane\<close>

text \<open>
  A definition set as the property sources supply it: a dict (distinct keys) in which
  every definition is stored under its own name.
\<close>

definition wf_definitions :: "definitions \<Rightarrow> bool" where
  "wf_definitions ds = (distinct (map fst ds) \<and> (\<forall>(k, d) \<in> set ds. def_name d = k))"

definition wf_widget :: "widget \<Rightarrow> bool" where
  "wf_widget w =
     ((case w_identity w of None \<Rightarrow> True | Some ds \<Rightarrow> wf_definitions ds)
      \<and> (case w_properties w of None \<Rightarrow> True | Some ds \<Rightarrow> wf_definitions ds)
      \<and> wf_definitions (w_layout_definition w))"

text \<open>
  The states the pane reaches from its construction by selection changes, layout
  changes, filter queries, filter clears and edits, whatever the editors and the
  selected objects answer; the state a raising call leaves behind counts as well. The
  parameter restricts the selected objects.
\<close>

definition admitted :: "(widget \<Rightarrow> bool) \<Rightarrow> widget option \<Rightarrow> bool" where
  "admitted P w = (case w of None \<Rightarrow> True | Some x \<Rightarrow> P x)"

inductive reachable :: "(widget \<Rightarrow> bool) \<Rightarrow> state \<Rightarrow> bool" for P :: "widget \<Rightarrow> bool" where
  start: "reachable P init_state"
| select: "reachable P s \<Longrightarrow> admitted P w \<Longrightarrow> reachable P (snd (styles_for E w s))"
| layout_change: "reachable P s \<Longrightarrow> admitted P w \<Longrightarrow> reachable P (snd (layout_for E w s))"
| search_query: "reachable P s \<Longrightarrow> reachable P (pane_on_search_query q s)"
| search_clear: "reachable P s \<Longrightarrow> reachable P (pane_on_search_clear s)"
| edit: "reachable P s \<Longrightarrow> reachable P (snd (group_apply C L g prop v s))"

text \<open>A group that has recorded a previous object has been initialized.\<close>

definition initialized_inv :: "state \<Rightarrow> bool" where
  "initialized_inv s = (\<forall>gr \<in> set (groups s). prev_widget gr \<noteq> None \<longrightarrow> has_initialized gr)"

text \<open>
  The invariant that relates availability, the pool and the groups' \<open>items\<close>: a pooled
  row is registered under its scope and its name; a group's \<open>items\<close> has distinct keys
  and holds rows placed under the group, each under its name; a row that is not
  available is what its group's \<open>items\<close> holds under the row's name.
\<close>

definition pool_inv :: "state \<Rightarrow> bool" where
  "pool_inv s =
     (\<forall>(p, q) \<in> set (pool s). \<forall>(k, r) \<in> set q.
        case get_row s r of None \<Rightarrow> False | Some x \<Rightarrow> parent x = p \<and> k = KStr (row_name x))"

definition items_inv :: "state \<Rightarrow> bool" where
  "items_inv s =
     (\<forall>g gr. get_group s g = Some gr \<longrightarrow>
        distinct (map fst (items gr))
        \<and> (\<forall>(k, r) \<in> set (items gr).
              case get_row s r of None \<Rightarrow> False | Some x \<Rightarrow> parent x = g \<and> row_name x = k))"

definition shown_inv :: "state \<Rightarrow> bool" where
  "shown_inv s =
     (\<forall>r x. get_row s r = Some x \<and> \<not> is_available x \<longrightarrow>
        (case get_group s (parent x) of
           None \<Rightarrow> False
         | Some gr \<Rightarrow> map_of (items gr) (row_name x) = Some r))"

definition pane_inv :: "state \<Rightarrow> bool" where
  "pane_inv s = (pool_inv s \<and> items_inv s \<and> shown_inv s)"

text \<open>Two states of a row that agree on where the row is placed and on its name.\<close>

definition same_place :: "row \<Rightarrow> row \<Rightarrow> bool" where
  "same_place x y = (parent y = parent x \<and> row_name y = row_name x)"

section \<open>Reading the store\<close>

lemma get_row_other_fields [simp]:
  "get_row (s\<lparr>pool := q\<rparr>) r = get_row s r"
  "get_row (s\<lparr>groups := gs\<rparr>) r = get_row s r"
  "get_row (s\<lparr>log_entries := l\<rparr>) r = get_row s r"
  "get_row (s\<lparr>current := w\<rparr>) r = get_row s r"
  "get_row (s\<lparr>placeholder := ph\<rparr>) r = get_row s r"
  by (simp_all add: get_row_def)

lemma get_group_other_fields [simp]:
  "get_group (s\<lparr>pool := q\<rparr>) g = get_group s g"
  "get_group (s\<lparr>rows := xs\<rparr>) g = get_group s g"
  "get_group (s\<lparr>log_entries := l\<rparr>) g = get_group s g"
  "get_group (s\<lparr>current := w\<rparr>) g = get_group s g"
  "get_group (s\<lparr>placeholder := ph\<rparr>) g = get_group s g"
  by (simp_all add: get_group_def)

lemma set_update_subset: "set (AList.update k v al) \<subseteq> insert (k, v) (set al)"
  by (induction al) auto

lemma get_row_Some_less: "get_row s r = Some x \<Longrightarrow> r < length (rows s)"
  by (simp add: get_row_def split: if_splits)

lemma get_row_append:
  "get_row (s\<lparr>rows := rows s @ [x]\<rparr>) r =
     (if r < length (rows s) then get_row s r else if r = length (rows s) then Some x else None)"
  by (auto simp: get_row_def nth_append)

lemma get_row_update_row:
  "get_row (update_row r f s) r' = (if r' = r then map_option f (get_row s r) else get_row s r')"
  by (auto simp: update_row_def get_row_def split: option.splits)

lemma pool_update_row [simp]: "pool (update_row r f s) = pool s"
  by (simp add: update_row_def split: option.splits)

lemma get_group_update_row [simp]: "get_group (update_row r f s) g = get_group s g"
  by (simp add: update_row_def split: option.splits)

lemma groups_update_row [simp]: "groups (update_row r f s) = groups s"
  by (simp add: update_row_def split: option.splits)

lemma pool_update_group [simp]: "pool (update_group g f s) = pool s"
  by (simp add: update_group_def split: option.splits)

lemma get_row_update_group [simp]: "get_row (update_group g f s) r = get_row s r"
  by (simp add: update_group_def split: option.splits)

lemma get_group_update_group:
  "get_group (update_group g f s) g' =
     (if g' = g then map_option f (get_group s g) else get_group s g')"
  by (auto simp: update_group_def get_group_def split: option.splits)

lemma groups_update_group:
  "groups (update_group g f s) =
     (if g < length (groups s) then (groups s)[g := f (groups s ! g)] else groups s)"
  by (simp add: update_group_def get_group_def)

lemma get_row_clear_children:
  "get_row (clear_children g s) r =
     map_option (\<lambda>x. if parent x = g then x\<lparr>is_available := True\<rparr> else x) (get_row s r)"
  by (simp add: clear_children_def get_row_def)

lemma clear_children_other [simp]:
  "pool (clear_children g s) = pool s"
  "get_group (clear_children g s) g' = get_group s g'"
  by (simp_all add: clear_children_def)

lemma get_row_new_item:
  "get_row (snd (new_item p d cb s)) r =
     (if r < length (rows s) then get_row s r
      else if r = length (rows s) then Some (fresh_row p d cb) else None)"
  by (auto simp: new_item_def Let_def get_row_def nth_append fresh_row_def)

lemma get_group_new_item [simp]: "get_group (snd (new_item p d cb s)) g = get_group s g"
  by (simp add: new_item_def Let_def)

lemma snd_re_purposed:
  "snd (re_purposed E r d cb s) = update_row r (\<lambda>x. snd (re_purposed_row E d cb x)) s"
  by (auto simp: re_purposed_def update_row_def split: option.splits prod.splits result.splits)

lemma re_purposed_row_keeps:
  "parent (snd (re_purposed_row E d cb x)) = parent x"
  "is_available (snd (re_purposed_row E d cb x)) = is_available x"
  "row_definition (snd (re_purposed_row E d cb x)) = row_definition x"
  "destroyed (snd (re_purposed_row E d cb x)) = destroyed x"
  "row_name (snd (re_purposed_row E d cb x)) = def_name d"
  by (auto simp: re_purposed_row_def block_def reassign_trace_def Let_def split: option.splits)

lemma get_group_re_purposed [simp]: "get_group (snd (re_purposed E r d cb s)) g = get_group s g"
  by (simp add: snd_re_purposed)

lemma re_purposed_accept:
  assumes "get_row s r = Some x"
    and "E (x\<lparr>on_change := None, row_name := def_name d\<rparr>) (def_value d) = None"
  shows "re_purposed E r d cb s =
     (Ok r, s\<lparr>rows := (rows s)[r := x\<lparr>on_change := (case cb of None \<Rightarrow> on_change x | Some c \<Rightarrow> Some c),
                    row_name := def_name d, editor_value := def_value d,
                    label_text := def_display_name d\<rparr>]\<rparr>)"
  using assms
  by (auto simp: update_row_def re_purposed_def reassign_trace_def block_def re_purposed_row_def Let_def split: option.splits)

lemma re_purposed_reject:
  assumes "get_row s r = Some x"
    and "E (x\<lparr>on_change := None, row_name := def_name d\<rparr>) (def_value d) = Some e"
  shows "re_purposed E r d cb s =
     (Raise e, s\<lparr>rows := (rows s)[r := x\<lparr>on_change := None, row_name := def_name d\<rparr>]\<rparr>)"
  using assms
  by (auto simp: update_row_def re_purposed_def reassign_trace_def block_def re_purposed_row_def Let_def split: option.splits)

lemma available_row_SomeD:
  "available_row s p k = Some (r, x) \<Longrightarrow>
     pool_lookup s p k = Some r \<and> get_row s r = Some x \<and> is_available x"
  by (auto simp: available_row_def split: option.splits if_splits)

lemma acquire_construct:
  assumes "available_row s p (def_name d) = None"
  shows "acquire E p d cb s = (Ok (length (rows s)), snd (new_item p d cb s))"
  using assms
  by (auto simp: acquire_def available_row_def pool_lookup_def new_item_def Let_def
      split: option.splits if_splits)

lemma acquire_reuse:
  assumes "available_row s p (def_name d) = Some (r, x)"
  shows "acquire E p d cb s = re_purposed E r d cb s"
  using assms
  by (auto simp: acquire_def available_row_def pool_lookup_def Let_def
      split: option.splits if_splits)

lemma available_row_after_construct:
  "available_row (snd (new_item p d cb s)) p (def_name d) = Some (length (rows s), fresh_row p d cb)"
  by (simp add: available_row_def new_item_def Let_def pool_lookup_def AList.update_conv'
      get_row_def fresh_row_def)

lemma groups_row_operations [simp]:
  "groups (make_available r b s) = groups s"
  "groups (show_item r s) = groups s"
  "groups (hide_item r s) = groups s"
  "groups (clear_children g s) = groups s"
  "groups (snd (new_item p d cb s)) = groups s"
  "groups (snd (re_purposed E r d cb s)) = groups s"
  by (simp_all add: make_available_def show_item_def hide_item_def clear_children_def
      new_item_def Let_def re_purposed_def split: option.splits prod.splits result.splits)

lemma groups_acquire [simp]: "groups (snd (acquire E p d cb s)) = groups s"
proof (cases "available_row s p (def_name d)")
  case None
  then show ?thesis by (simp add: acquire_construct)
next
  case (Some rx)
  then show ?thesis by (cases rx) (simp add: acquire_reuse)
qed

lemma groups_filter_item [simp]: "groups (filter_item q r s) = groups s"
  by (simp add: filter_item_def split: option.splits)

lemma groups_fold_filter_item [simp]: "groups (fold (filter_item q) rs s) = groups s"
  by (induction rs arbitrary: s) simp_all

lemma groups_group_on_search_query [simp]: "groups (group_on_search_query q g s) = groups s"
  by (simp add: group_on_search_query_def)

lemma groups_pane_on_search_query [simp]: "groups (fold (group_on_search_query q) gs s) = groups s"
  by (induction gs arbitrary: s) simp_all

lemma groups_pane_on_search_clear [simp]: "groups (fold group_on_search_clear gs s) = groups s"
  by (induction gs arbitrary: s) (simp_all add: group_on_search_clear_def)

lemma groups_group_apply [simp]: "groups (snd (group_apply C L g prop v s)) = groups s"
  by (simp add: group_apply_def apply_style_def apply_layout_def log_error_def
      split: option.splits)

lemma get_group_filter_item [simp]: "get_group (filter_item q r s) g = get_group s g"
  by (simp add: filter_item_def show_item_def hide_item_def make_available_def split: option.splits)

lemma get_row_group_add:
  "get_row (group_add g r s) r' =
     (if r' = r then map_option (\<lambda>x. x\<lparr>is_available := False\<rparr>) (get_row s r) else get_row s r')"
  by (auto simp: group_add_def show_item_def make_available_def get_row_update_row
      split: option.splits)

lemma get_group_group_add_None: "get_group (group_add g r s) g' = None \<longleftrightarrow> get_group s g' = None"
  by (auto simp: group_add_def show_item_def make_available_def get_group_update_group
      split: option.splits)

section \<open>The example inputs\<close>

lemmas pane_eval =
  acquire_def new_item_def init_state_def color_red_def color_blue_def id_definition_def
  pool_lookup_def get_row_def update_row_def Let_def on_widget_change_def
  style_on_widget_change_def layout_on_widget_change_def get_group_def update_group_def
  new_group_def get_definition_def can_optimize_def refresh_rows_def rebuild_rows_def
  clear_children_def collapse_def plain_widget_def button_widget_def layout_group_def
  items_of_def group_add_def show_item_def hide_item_def make_available_def
  class_of_widget_def class_of_strategy_def same_object_def layout_label_def
  pack_strategy_def styles_for_def show_empty_def show_loading_def remove_empty_def
  re_purposed_def re_purposed_row_def block_def reassign_trace_def accept_def reject_def
  mark_initialized_def layout_after_def layout_for_def

lemma rows_init_state: "rows init_state = []"
  by (simp add: init_state_def)

lemma rows_pooled_state: "rows pooled_state = [fresh_row 0 color_red (Some (Handler 1))]"
  by (simp add: pooled_state_def acquire_def new_item_def Let_def fresh_row_def init_state_def)

lemma get_group_layout_selected:
  "get_group layout_selected layout_group = Some layout_group_selected"
  by (simp add: layout_selected_def layout_group_selected_def pane_eval)

lemma wf_button_widget: "wf_widget button_widget"
  by (simp add: wf_widget_def wf_definitions_def button_widget_def id_definition_def color_red_def)

section \<open>Destruction and the pool\<close>

lemma destroy_pool_lookup:
  assumes "get_row s r = Some x"
    and "\<forall>q. map_of (pool s) (parent x) = Some q \<longrightarrow> map_of q (KRow r) = None"
  shows "pool_lookup (destroy r s) p k = pool_lookup s p k"
  using assms
  by (auto simp: destroy_def pool_lookup_def update_row_def get_row_def Let_def
      AList.update_conv' split: option.splits)

text \<open>
  C8 (the code does not do what the claim says). A row constructed by \<open>acquire\<close> for
  scope 0 under the name color is still what the pool holds at that scope and name after
  the row has been destroyed: the row object is not a key of the inner dict, so the
  membership test of \<^verbatim>\<open>destroy\<close> is false and nothing is popped.
\<close>

theorem destroy_keeps_pool_entry:
  "fst (acquire accept 0 color_red None init_state) = Ok 0
   \<and> pool_lookup (snd (acquire accept 0 color_red None init_state)) 0 ''color'' = Some 0
   \<and> pool_lookup (destroy 0 (snd (acquire accept 0 color_red None init_state))) 0 ''color'' = Some 0
   \<and> map_option destroyed (get_row (destroy 0 (snd (acquire accept 0 color_red None init_state))) 0) = Some True"
  by (simp add: acquire_def new_item_def init_state_def color_red_def destroy_def
      pool_lookup_def get_row_def update_row_def Let_def)

section \<open>Acquiring rows from the pool\<close>

lemma pool_wf_lookup:
  "pool_wf s \<Longrightarrow> pool_lookup s p k = Some r \<Longrightarrow> get_row s r = Some x \<Longrightarrow> parent x = p"
  by (fastforce simp: pool_wf_def pool_lookup_def split: option.splits dest!: map_of_SomeD)

lemma pool_wf_new_item: 
  assumes "pool_wf s" shows "pool_wf (snd (new_item p d cb s))"
proof -
  let ?r = "length (rows s)"
  let ?inner = "case map_of (pool s) p of None \<Rightarrow> [] | Some q \<Rightarrow> q"
  let ?x = "fresh_row p d cb"
  have inner: "\<forall>(k, r) \<in> set ?inner. case get_row s r of None \<Rightarrow> False | Some x \<Rightarrow> parent x = p"
    using assms by (cases "map_of (pool s) p") (auto simp: pool_wf_def dest!: map_of_SomeD)
  have old: "\<And>r y. get_row s r = Some y \<Longrightarrow> get_row (s\<lparr>rows := rows s @ [?x]\<rparr>) r = Some y"
    by (auto simp: get_row_def nth_append split: if_splits)
  show ?thesis
    unfolding pool_wf_def
  proof (clarify)
    fix p' q k r
    assume pq: "(p', q) \<in> set (pool (snd (new_item p d cb s)))" and kr: "(k, r) \<in> set q"
    from pq have "(p', q) = (p, AList.update (KStr (def_name d)) ?r ?inner) \<or> (p', q) \<in> set (pool s)"
      using set_update_subset [of p "AList.update (KStr (def_name d)) ?r ?inner" "pool s"]
      by (auto simp: new_item_def Let_def)
    then show "case get_row (snd (new_item p d cb s)) r of None \<Rightarrow> False | Some x \<Rightarrow> parent x = p'"
    proof
      assume eq: "(p', q) = (p, AList.update (KStr (def_name d)) ?r ?inner)"
      with kr have "(k, r) = (KStr (def_name d), ?r) \<or> (k, r) \<in> set ?inner"
        using set_update_subset [of "KStr (def_name d)" ?r ?inner] by auto
      then show ?thesis
      proof
        assume "(k, r) = (KStr (def_name d), ?r)"
        then show ?thesis using eq by (simp add: new_item_def Let_def get_row_def fresh_row_def)
      next
        assume "(k, r) \<in> set ?inner"
        with inner obtain y where "get_row s r = Some y" "parent y = p"
          by (auto split: option.splits)
        then show ?thesis using eq old [of r y]
          by (simp add: new_item_def Let_def fresh_row_def)
      qed
    next
      assume "(p', q) \<in> set (pool s)"
      with kr assms obtain y where "get_row s r = Some y" "parent y = p'"
        by (fastforce simp: pool_wf_def split: option.splits)
      then show ?thesis using old [of r y]
        by (simp add: new_item_def Let_def fresh_row_def)
    qed
  qed
qed

lemma pool_wf_update_row:
  "pool_wf s \<Longrightarrow> (\<And>x. parent (f x) = parent x) \<Longrightarrow> pool_wf (update_row r f s)"
  unfolding pool_wf_def update_row_def
  by (fastforce simp: get_row_def nth_list_update split: option.splits if_splits)


text \<open>
  C1. For a well-formed pool, \<open>acquire\<close> returns the row registered at
  \<^verbatim>\<open>_pool[scope][name]\<close> exactly when that row exists and is available: the row is then
  placed under the requested scope, it is below the length of the store (an existing
  object), and when its editor accepts the value it is returned re-purposed with the
  definition (and the callback when one is given), the pool being unchanged; when the
  editor raises, the exception leaves \<open>acquire\<close>. In every other case a new row bound to
  the scope is appended to the store, registered at that scope and name, and returned.
  So a returned row is an existing object exactly when it is the available row of the
  pool. The pool stays well-formed, so no row is ever registered, or returned, under a
  scope other than its own.
\<close>

theorem acquire_reuses_available_row:
  assumes "pool_wf s"
  shows "(available_row s p (def_name d) = Some (r, x) \<longrightarrow>
            parent x = p \<and> r < length (rows s)
            \<and> (case E (x\<lparr>on_change := None, row_name := def_name d\<rparr>) (def_value d) of
                 None \<Rightarrow>
                   acquire E p d cb s =
                     (Ok r, s\<lparr>rows := (rows s)[r := x\<lparr>on_change := (case cb of None \<Rightarrow> on_change x | Some c \<Rightarrow> Some c),
                                                  row_name := def_name d, editor_value := def_value d,
                                                  label_text := def_display_name d\<rparr>]\<rparr>)
               | Some e \<Rightarrow> fst (acquire E p d cb s) = Raise e))
         \<and> (available_row s p (def_name d) = None \<longrightarrow>
              acquire E p d cb s =
                (Ok (length (rows s)),
                 s\<lparr>rows := rows s @ [fresh_row p d cb],
                   pool := AList.update p
                             (AList.update (KStr (def_name d)) (length (rows s))
                                (case map_of (pool s) p of None \<Rightarrow> [] | Some q \<Rightarrow> q))
                             (pool s)\<rparr>)
              \<and> pool_lookup (snd (acquire E p d cb s)) p (def_name d) = Some (length (rows s)))
         \<and> (\<forall>r'. fst (acquire E p d cb s) = Ok r' \<longrightarrow>
                (r' < length (rows s)) = (\<exists>x'. available_row s p (def_name d) = Some (r', x')))
         \<and> pool_wf (snd (acquire E p d cb s))"
proof (intro conjI impI allI)
  assume a: "available_row s p (def_name d) = Some (r, x)"
  note ar = available_row_SomeD [OF a]
  show "parent x = p" using pool_wf_lookup [OF assms] ar by blast
  show "r < length (rows s)" using ar by (auto simp: get_row_def split: if_splits)
  show "case E (x\<lparr>on_change := None, row_name := def_name d\<rparr>) (def_value d) of
          None \<Rightarrow>
            acquire E p d cb s =
              (Ok r, s\<lparr>rows := (rows s)[r := x\<lparr>on_change := (case cb of None \<Rightarrow> on_change x | Some c \<Rightarrow> Some c),
                                           row_name := def_name d, editor_value := def_value d,
                                           label_text := def_display_name d\<rparr>]\<rparr>)
        | Some e \<Rightarrow> fst (acquire E p d cb s) = Raise e"
    using ar by (simp add: acquire_reuse [OF a] re_purposed_accept re_purposed_reject split: option.splits)
next
  assume a: "available_row s p (def_name d) = None"
  show "acquire E p d cb s =
          (Ok (length (rows s)),
           s\<lparr>rows := rows s @ [fresh_row p d cb],
             pool := AList.update p
                       (AList.update (KStr (def_name d)) (length (rows s))
                          (case map_of (pool s) p of None \<Rightarrow> [] | Some q \<Rightarrow> q))
                       (pool s)\<rparr>)"
    by (simp add: acquire_construct [OF a] new_item_def Let_def fresh_row_def)
  show "pool_lookup (snd (acquire E p d cb s)) p (def_name d) = Some (length (rows s))"
    by (simp add: acquire_construct [OF a] new_item_def Let_def pool_lookup_def AList.update_conv')
next
  fix r' assume ok: "fst (acquire E p d cb s) = Ok r'"
  show "(r' < length (rows s)) = (\<exists>x'. available_row s p (def_name d) = Some (r', x'))"
  proof (cases "available_row s p (def_name d)")
    case None
    then show ?thesis using ok by (simp add: acquire_construct)
  next
    case (Some rx)
    then obtain r0 x0 where a: "available_row s p (def_name d) = Some (r0, x0)" by (cases rx) auto
    note ar = available_row_SomeD [OF a]
    have "r' = r0"
      using ok ar by (auto simp: acquire_reuse [OF a] re_purposed_def split: prod.splits result.splits)
    then show ?thesis using a ar by (auto simp: get_row_def split: if_splits)
  qed
next
  show "pool_wf (snd (acquire E p d cb s))"
  proof (cases "available_row s p (def_name d)")
    case None
    then show ?thesis by (simp add: acquire_construct pool_wf_new_item [OF assms])
  next
    case (Some rx)
    then obtain r x where a: "available_row s p (def_name d) = Some (r, x)" by (cases rx) auto
    note ar = available_row_SomeD [OF a]
    have "pool_wf (snd (re_purposed E r d cb s))"
      by (simp add: snd_re_purposed pool_wf_update_row [OF assms] re_purposed_row_keeps)
    then show ?thesis by (simp add: acquire_reuse [OF a])
  qed
qed


text \<open>Both cases at concrete inputs: a construction on the fresh pane, then a reuse.\<close>

theorem acquire_reuses_available_row_witness:
  "pool_wf init_state
   \<and> available_row init_state 0 (def_name color_red) = None
   \<and> acquire accept 0 color_red (Some (Handler 1)) init_state = (Ok 0, pooled_state)
   \<and> pool_lookup pooled_state 0 (def_name color_red) = Some 0
   \<and> pool_wf pooled_state
   \<and> available_row pooled_state 0 (def_name color_blue) = Some (0, fresh_row 0 color_red (Some (Handler 1)))
   \<and> parent (fresh_row 0 color_red (Some (Handler 1))) = 0
   \<and> acquire accept 0 color_blue None pooled_state =
       (Ok 0, pooled_state\<lparr>rows := [(fresh_row 0 color_red (Some (Handler 1)))\<lparr>editor_value := ''blue''\<rparr>]\<rparr>)"
proof -
  have wf0: "pool_wf init_state"
    by (simp add: pool_wf_def init_state_def)
  have none: "available_row init_state 0 (def_name color_red) = None"
    by (simp add: available_row_def pool_lookup_def init_state_def)
  note first = acquire_reuses_available_row [OF wf0, of 0 color_red 0 undefined accept "Some (Handler 1)"]
  have s1: "acquire accept 0 color_red (Some (Handler 1)) init_state = (Ok 0, pooled_state)"
    by (simp add: pooled_state_def acquire_construct [OF none] rows_init_state)
  have "pool_lookup (snd (acquire accept 0 color_red (Some (Handler 1)) init_state)) 0 (def_name color_red)
          = Some (length (rows init_state))"
    using first none by blast
  then have look: "pool_lookup pooled_state 0 (def_name color_red) = Some 0"
    by (simp only: pooled_state_def rows_init_state list.size)
  have wf1: "pool_wf pooled_state"
    unfolding pooled_state_def using first by blast
  have av: "available_row pooled_state 0 (def_name color_blue) = Some (0, fresh_row 0 color_red (Some (Handler 1)))"
    by (simp add: available_row_def pooled_state_def acquire_def new_item_def Let_def
        pool_lookup_def get_row_def fresh_row_def init_state_def color_red_def color_blue_def)
  have acc: "accept ((fresh_row 0 color_red (Some (Handler 1)))\<lparr>on_change := None, row_name := def_name color_blue\<rparr>)
               (def_value color_blue) = None"
    by (simp add: accept_def)
  note second = acquire_reuses_available_row [OF wf1, of 0 color_blue 0 "fresh_row 0 color_red (Some (Handler 1))" accept None]
  have par: "parent (fresh_row 0 color_red (Some (Handler 1))) = 0"
    using second av by simp
  have res: "acquire accept 0 color_blue None pooled_state =
       (Ok 0, pooled_state\<lparr>rows := [(fresh_row 0 color_red (Some (Handler 1)))\<lparr>editor_value := ''blue''\<rparr>]\<rparr>)"
    using second av acc
    by (simp add: rows_pooled_state) (simp add: fresh_row_def color_blue_def color_red_def)
  show ?thesis
    using wf0 none s1 look wf1 av par res by blast
qed

text \<open>
  C10. A constructed row is available as it is registered; a second \<open>acquire\<close> for the
  same scope and name, before the row has been shown, returns the same reference (when
  the editor accepts the value) and the store has grown by the one row only. The row
  behind that reference is the constructed row re-purposed: it carries the name, the
  value and the label of the second definition, and the second callback when one is
  given, the first callback otherwise; it is still available and placed under the
  scope, and the pool is as the construction left it.
\<close>

theorem second_acquire_returns_same_row:
  assumes "available_row s p (def_name d) = None"
    and "def_name d' = def_name d"
    and "E' ((fresh_row p d cb)\<lparr>on_change := None, row_name := def_name d'\<rparr>) (def_value d') = None"
  shows "fst (acquire E p d cb s) = Ok (length (rows s))
     \<and> get_row (snd (acquire E p d cb s)) (length (rows s)) = Some (fresh_row p d cb)
     \<and> is_available (fresh_row p d cb)
     \<and> fst (acquire E' p d' cb' (snd (acquire E p d cb s))) = Ok (length (rows s))
     \<and> length (rows (snd (acquire E' p d' cb' (snd (acquire E p d cb s))))) = Suc (length (rows s))
     \<and> get_row (snd (acquire E' p d' cb' (snd (acquire E p d cb s)))) (length (rows s)) =
         Some \<lparr>parent = p, row_name = def_name d', row_definition = d,
               editor_value = def_value d', label_text = def_display_name d',
               on_change = (case cb' of None \<Rightarrow> cb | Some c \<Rightarrow> Some c),
               is_available = True, destroyed = False\<rparr>
     \<and> pool (snd (acquire E' p d' cb' (snd (acquire E p d cb s)))) = pool (snd (acquire E p d cb s))"
proof -
  let ?s1 = "snd (new_item p d cb s)"
  let ?r = "length (rows s)"
  have first: "acquire E p d cb s = (Ok ?r, ?s1)"
    by (rule acquire_construct [OF assms(1)])
  have av: "available_row ?s1 p (def_name d') = Some (?r, fresh_row p d cb)"
    using available_row_after_construct [of p d cb s] assms(2) by simp
  have row: "get_row ?s1 ?r = Some (fresh_row p d cb)"
    using available_row_SomeD [OF av] by simp
  have second: "acquire E' p d' cb' ?s1 = re_purposed E' ?r d' cb' ?s1"
    by (rule acquire_reuse [OF av])
  have len: "length (rows ?s1) = Suc ?r"
    by (simp add: new_item_def Let_def)
  let ?y = "(fresh_row p d cb)\<lparr>on_change := (case cb' of None \<Rightarrow> on_change (fresh_row p d cb) | Some c \<Rightarrow> Some c),
                row_name := def_name d', editor_value := def_value d',
                label_text := def_display_name d'\<rparr>"
  have third: "acquire E' p d' cb' ?s1 = (Ok ?r, ?s1\<lparr>rows := (rows ?s1)[?r := ?y]\<rparr>)"
    unfolding second
    by (rule re_purposed_accept [where x = "fresh_row p d cb" and E = E' and d = d', OF row assms(3)])
  have y: "?y = \<lparr>parent = p, row_name = def_name d', row_definition = d,
               editor_value = def_value d', label_text = def_display_name d',
               on_change = (case cb' of None \<Rightarrow> cb | Some c \<Rightarrow> Some c),
               is_available = True, destroyed = False\<rparr>"
    by (cases cb') (simp_all add: fresh_row_def)
  have got: "get_row (?s1\<lparr>rows := (rows ?s1)[?r := ?y]\<rparr>) ?r = Some ?y"
    using len by (simp add: get_row_def)
  show ?thesis
    unfolding first third snd_conv fst_conv
    using row len got y by (simp add: fresh_row_def)
qed

theorem second_acquire_returns_same_row_witness:
  "available_row init_state 0 (def_name color_red) = None
   \<and> def_name color_blue = def_name color_red
   \<and> fst (acquire accept 0 color_red None init_state) = Ok 0
   \<and> fst (acquire accept 0 color_blue None (snd (acquire accept 0 color_red None init_state))) = Ok 0
   \<and> length (rows (snd (acquire accept 0 color_blue None (snd (acquire accept 0 color_red None init_state))))) = 1
   \<and> get_row (snd (acquire accept 0 color_blue None (snd (acquire accept 0 color_red None init_state)))) 0 =
       Some \<lparr>parent = 0, row_name = ''color'', row_definition = color_red,
             editor_value = ''blue'', label_text = ''Color'', on_change = None,
             is_available = True, destroyed = False\<rparr>
   \<and> available_row pooled_state 0 (def_name id_definition) = None
   \<and> fst (acquire accept 0 id_definition (Some (GroupApply 0)) pooled_state) = Ok 1
   \<and> get_row (snd (acquire accept 0 (id_definition\<lparr>def_value := ''button_2''\<rparr>) None
                      (snd (acquire accept 0 id_definition (Some (GroupApply 0)) pooled_state)))) 1 =
       Some \<lparr>parent = 0, row_name = ''id'', row_definition = id_definition,
             editor_value = ''button_2'', label_text = ''Widget Id'',
             on_change = Some (GroupApply 0), is_available = True, destroyed = False\<rparr>"
proof -
  have n1: "available_row init_state 0 (def_name color_red) = None"
    by (simp add: available_row_def pool_lookup_def init_state_def)
  have e1: "def_name color_blue = def_name color_red"
    by (simp add: color_red_def color_blue_def)
  have a1: "accept ((fresh_row 0 color_red None)\<lparr>on_change := None, row_name := def_name color_blue\<rparr>)
              (def_value color_blue) = None"
    by (simp add: accept_def)
  note i1 = second_acquire_returns_same_row
    [where s = init_state and p = 0 and d = color_red and d' = color_blue and E' = accept
       and cb = None and E = accept and cb' = None, OF n1 e1 a1]
  have n2: "available_row pooled_state 0 (def_name id_definition) = None"
    by (simp add: available_row_def pool_lookup_def pooled_state_def acquire_def new_item_def
        Let_def init_state_def color_red_def id_definition_def)
  have e2: "def_name (id_definition\<lparr>def_value := ''button_2''\<rparr>) = def_name id_definition"
    by simp
  have a2: "accept ((fresh_row 0 id_definition (Some (GroupApply 0)))
                      \<lparr>on_change := None, row_name := def_name (id_definition\<lparr>def_value := ''button_2''\<rparr>)\<rparr>)
              (def_value (id_definition\<lparr>def_value := ''button_2''\<rparr>)) = None"
    by (simp add: accept_def)
  note i2 = second_acquire_returns_same_row
    [where s = pooled_state and p = 0 and d = id_definition
       and d' = "id_definition\<lparr>def_value := ''button_2''\<rparr>" and E' = accept
       and cb = "Some (GroupApply 0)" and E = accept and cb' = None, OF n2 e2 a2]
  have len: "length (rows init_state) = 0" "length (rows pooled_state) = 1"
    by (simp_all add: rows_init_state rows_pooled_state)
  have names: "def_name color_blue = ''color''" "def_value color_blue = ''blue''"
    "def_display_name color_blue = ''Color''" "def_name id_definition = ''id''"
    "def_display_name id_definition = ''Widget Id''"
    by (simp_all add: color_blue_def id_definition_def)
  show ?thesis
    using n1 e1 n2 i1 i2 by (simp add: len names)
qed

section \<open>Re-purposing and the change callback\<close>

text \<open>
  C9 (amended). While the name, the value and the label are reassigned the row's
  callback is None, and when the editor accepts the value the rebind completes with the
  new callback installed when one was given and the previous callback otherwise.
\<close>

theorem re_purposed_suspends_callback:
  "(\<forall>y \<in> set (reassign_trace E d (snd (block cb x))). on_change y = None)
   \<and> (E (x\<lparr>on_change := None, row_name := def_name d\<rparr>) (def_value d) = None \<longrightarrow>
        re_purposed_row E d cb x =
          (Ok (), x\<lparr>row_name := def_name d, editor_value := def_value d,
                    label_text := def_display_name d,
                    on_change := (case cb of None \<Rightarrow> on_change x | Some c \<Rightarrow> Some c)\<rparr>))"
  by (auto simp: reassign_trace_def block_def re_purposed_row_def Let_def split: option.splits)

theorem re_purposed_suspends_callback_witness:
  "accept ((fresh_row 0 color_red (Some (Handler 1)))\<lparr>on_change := None, row_name := def_name color_blue\<rparr>)
      (def_value color_blue) = None
   \<and> re_purposed_row accept color_blue None (fresh_row 0 color_red (Some (Handler 1)))
       = (Ok (), (fresh_row 0 color_red (Some (Handler 1)))\<lparr>editor_value := ''blue''\<rparr>)
   \<and> map on_change
        (reassign_trace accept color_blue (snd (block None (fresh_row 0 color_red (Some (Handler 1))))))
       = [None, None, None, None]"
  using re_purposed_suspends_callback
    [of accept color_blue None "fresh_row 0 color_red (Some (Handler 1))"]
  by (simp add: accept_def fresh_row_def color_red_def color_blue_def reassign_trace_def
      block_def Let_def)

text \<open>
  The claim as stated fails where the reassignment raises: the exception leaves
  \<^verbatim>\<open>_re_purposed\<close> before line 42 and the row's callback, \<open>Handler 1\<close> before, stays None.
\<close>

theorem re_purposed_failure_keeps_callback_null:
  "map_option on_change (get_row pooled_state 0) = Some (Some (Handler 1))
   \<and> fst (re_purposed reject 0 color_blue None pooled_state) = Raise (TclError ''bad value'')
   \<and> map_option on_change (get_row (snd (re_purposed reject 0 color_blue None pooled_state)) 0)
     = Some None"
  by (simp add: pooled_state_def acquire_def new_item_def init_state_def color_red_def
      color_blue_def get_row_def update_row_def Let_def re_purposed_def re_purposed_row_def
      block_def reassign_trace_def reject_def)

section \<open>Groups without a selection or without definitions\<close>

text \<open>
  C5 (the code does not do what the claim says). On the fresh pane, where no group has
  an object, \<^verbatim>\<open>on_widget_change(None)\<close> of the layout group raises AttributeError: line
  184 reads \<^verbatim>\<open>widget.layout\<close> before the test of \<^verbatim>\<open>widget\<close> at line 185. The identity
  group completes and changes neither the pool nor the rows.
\<close>

theorem layout_deselect_raises:
  "fst (on_widget_change accept layout_group None init_state) = Raise AttributeError
   \<and> fst (on_widget_change accept 0 None init_state) = Ok ()
   \<and> pool (snd (on_widget_change accept 0 None init_state)) = pool init_state
   \<and> rows (snd (on_widget_change accept 0 None init_state)) = rows init_state"
  by (simp add: pane_eval)

text \<open>
  C6 (the code does not do what the claim says). For an object without the attribute
  \<^verbatim>\<open>identity\<close> the identity group's \<^verbatim>\<open>get_definition\<close> is None, not the empty dict, and
  its \<^verbatim>\<open>on_widget_change\<close> raises TypeError on iterating it. The attribute group, whose
  \<^verbatim>\<open>get_definition\<close> returns the empty dict for an object without \<^verbatim>\<open>properties\<close>,
  completes with no rows.
\<close>

theorem identity_without_definitions_raises:
  "get_definition ((new_group IdentityGroup [])\<lparr>g_widget := Some plain_widget\<rparr>) = None
   \<and> fst (on_widget_change accept 0 (Some plain_widget) init_state) = Raise TypeError
   \<and> fst (on_widget_change accept 2 (Some plain_widget) init_state) = Ok ()
   \<and> items_of (snd (on_widget_change accept 2 (Some plain_widget) init_state)) 2 = []"
  by (simp add: pane_eval)

section \<open>Applying an edit\<close>

text \<open>
  C7 (the code does not do what the claim says). A rejected empty string is not to be
  logged. The generic \<^verbatim>\<open>apply\<close> keeps to that: on the pane with an object selected, the
  identity group's rejected write of the empty string leaves the state, the log
  included, as it was. The layout group's \<^verbatim>\<open>apply\<close>, which overrides it, has no test of
  the value: the same rejected write of the empty string is swallowed but adds an entry
  to the log, on the pane after a layout change and on the pane with the object selected
  alike.
\<close>

theorem layout_apply_logs_empty_value:
  "log_entries layout_selected = []
   \<and> group_apply refuse refuse layout_group ''width'' [] layout_selected =
       (Ok (), layout_selected\<lparr>log_entries := [LogLayoutFailure (TclError ''bad option'') ''width'' []]\<rparr>)
   \<and> log_entries button_selected = []
   \<and> group_apply refuse refuse 0 ''id'' [] button_selected = (Ok (), button_selected)
   \<and> group_apply refuse refuse layout_group ''width'' [] button_selected =
       (Ok (), button_selected\<lparr>log_entries := [LogLayoutFailure (TclError ''bad option'') ''width'' []]\<rparr>)"
  by (simp add: layout_selected_def button_selected_def pane_eval upt_rec group_apply_def
      apply_layout_def apply_style_def log_error_def refuse_def)

text \<open>
  Whatever the group, the key and the value, when the write on the selected object
  raises, \<^verbatim>\<open>apply\<close> returns normally and changes nothing but the log, so the rows keep
  what the user entered. The generic \<^verbatim>\<open>apply\<close> logs the failure (two entries) except
  for the empty string; the layout group's \<^verbatim>\<open>apply\<close> logs every failure (one entry).
\<close>

theorem apply_failure_swallowed:
  assumes "get_group s g = Some gr" and "g_widget gr = Some w"
    and "C w prop v = Some e" and "L w prop v = Some e'"
  shows "group_apply C L g prop v s =
           (Ok (), s\<lparr>log_entries := log_entries s @
                      (if g_class gr = LayoutGroup then [LogLayoutFailure e' prop v]
                       else if v = [] then []
                       else [LogException e, LogStyleFailure prop v])\<rparr>)"
  using assms by (simp add: group_apply_def apply_style_def apply_layout_def log_error_def)

theorem apply_failure_swallowed_witness:
  "get_group layout_selected layout_group = Some layout_group_selected
   \<and> g_widget layout_group_selected = Some plain_widget
   \<and> refuse plain_widget ''width'' ''x'' = Some (TclError ''bad option'')
   \<and> group_apply refuse refuse layout_group ''width'' ''x'' layout_selected =
       (Ok (), layout_selected\<lparr>log_entries := log_entries layout_selected @
                  [LogLayoutFailure (TclError ''bad option'') ''width'' ''x'']\<rparr>)"
proof -
  have w: "g_widget layout_group_selected = Some plain_widget"
    and c: "g_class layout_group_selected = LayoutGroup"
    by (simp_all add: layout_group_selected_def)
  have r: "refuse plain_widget ''width'' ''x'' = Some (TclError ''bad option'')"
    by (simp add: refuse_def)
  show ?thesis
    using apply_failure_swallowed [where C = refuse and L = refuse, OF get_group_layout_selected w r r]
      get_group_layout_selected w r c
    by simp
qed

section \<open>Selection changes on the pane\<close>

lemma notify_groups_Ok_iff:
  "notify_groups E gs w s = (Ok (), s') \<longleftrightarrow>
     (\<exists>ss. length ss = Suc (length gs) \<and> ss ! 0 = s \<and> ss ! length gs = s'
        \<and> (\<forall>i < length gs. on_widget_change E (gs ! i) w (ss ! i) = (Ok (), ss ! Suc i)))"
proof (induction gs arbitrary: s)
  case Nil
  show ?case
  proof
    assume "notify_groups E [] w s = (Ok (), s')"
    then have "s' = s" by simp
    then have "length [s] = Suc (length ([]::nat list)) \<and> [s] ! 0 = s \<and> [s] ! length ([]::nat list) = s'
        \<and> (\<forall>i < length ([]::nat list). on_widget_change E ([] ! i) w ([s] ! i) = (Ok (), [s] ! Suc i))"
      by simp
    then show "\<exists>ss. length ss = Suc (length ([]::nat list)) \<and> ss ! 0 = s \<and> ss ! length ([]::nat list) = s'
        \<and> (\<forall>i < length ([]::nat list). on_widget_change E ([] ! i) w (ss ! i) = (Ok (), ss ! Suc i))"
      by blast
  next
    assume "\<exists>ss. length ss = Suc (length ([]::nat list)) \<and> ss ! 0 = s \<and> ss ! length ([]::nat list) = s'
        \<and> (\<forall>i < length ([]::nat list). on_widget_change E ([] ! i) w (ss ! i) = (Ok (), ss ! Suc i))"
    then show "notify_groups E [] w s = (Ok (), s')" by auto
  qed
next
  case (Cons g gs)
  show ?case
  proof
    assume a: "notify_groups E (g # gs) w s = (Ok (), s')"
    then obtain s1 where s1: "on_widget_change E g w s = (Ok (), s1)"
      and rest: "notify_groups E gs w s1 = (Ok (), s')"
      by (auto split: prod.splits result.splits)
    from rest Cons.IH [of s1] obtain ss where ss: "length ss = Suc (length gs)" "ss ! 0 = s1"
      "ss ! length gs = s'"
      "\<forall>i < length gs. on_widget_change E (gs ! i) w (ss ! i) = (Ok (), ss ! Suc i)"
      by blast
    have "\<forall>i < length (g # gs). on_widget_change E ((g # gs) ! i) w ((s # ss) ! i) = (Ok (), (s # ss) ! Suc i)"
    proof (intro allI impI)
      fix i assume "i < length (g # gs)"
      then show "on_widget_change E ((g # gs) ! i) w ((s # ss) ! i) = (Ok (), (s # ss) ! Suc i)"
        using s1 ss by (cases i) auto
    qed
    then have "length (s # ss) = Suc (length (g # gs)) \<and> (s # ss) ! 0 = s \<and> (s # ss) ! length (g # gs) = s'
        \<and> (\<forall>i < length (g # gs). on_widget_change E ((g # gs) ! i) w ((s # ss) ! i) = (Ok (), (s # ss) ! Suc i))"
      using ss by simp
    then show "\<exists>ss. length ss = Suc (length (g # gs)) \<and> ss ! 0 = s \<and> ss ! length (g # gs) = s'
        \<and> (\<forall>i < length (g # gs). on_widget_change E ((g # gs) ! i) w (ss ! i) = (Ok (), ss ! Suc i))"
      by blast
  next
    assume "\<exists>ss. length ss = Suc (length (g # gs)) \<and> ss ! 0 = s \<and> ss ! length (g # gs) = s'
        \<and> (\<forall>i < length (g # gs). on_widget_change E ((g # gs) ! i) w (ss ! i) = (Ok (), ss ! Suc i))"
    then obtain ss where ss: "length ss = Suc (length (g # gs))" "ss ! 0 = s" "ss ! length (g # gs) = s'"
      "\<forall>i < length (g # gs). on_widget_change E ((g # gs) ! i) w (ss ! i) = (Ok (), ss ! Suc i)"
      by blast
    then obtain t ts where ts: "ss = t # ts" by (cases ss) auto
    have first: "on_widget_change E g w s = (Ok (), ts ! 0)"
      using ss(2) ss(4) [rule_format, of 0] ts by simp
    have "\<forall>i < length gs. on_widget_change E (gs ! i) w (ts ! i) = (Ok (), ts ! Suc i)"
    proof (intro allI impI)
      fix i assume "i < length gs"
      then show "on_widget_change E (gs ! i) w (ts ! i) = (Ok (), ts ! Suc i)"
        using ss(4) [rule_format, of "Suc i"] ts by simp
    qed
    then have "notify_groups E gs w (ts ! 0) = (Ok (), s')"
      using Cons.IH [of "ts ! 0"] ss(1) ss(3) ts by auto
    then show "notify_groups E (g # gs) w s = (Ok (), s')"
      using first by simp
  qed
qed

text \<open>
  C4 (amended). For an absent object \<open>styles_for\<close> shows the empty placeholder and returns
  at once: it notifies no group, so the state is otherwise as it was. For a present
  object it returns normally exactly when \<^verbatim>\<open>on_widget_change\<close> of every group, taken in
  the order of \<open>groups\<close> and each started in the state the one before it left, returns
  normally; the placeholder, showing Loading meanwhile, is then removed.
\<close>

theorem styles_for_forwards_in_order:
  "styles_for E None s = (Ok (), s\<lparr>current := None, placeholder := EmptyPlaceholder\<rparr>)
   \<and> (styles_for E (Some w) s = (Ok (), s') \<longleftrightarrow>
        (\<exists>ss. length ss = Suc (length (groups s))
           \<and> ss ! 0 = s\<lparr>current := Some w, placeholder := LoadingPlaceholder\<rparr>
           \<and> (\<forall>g < length (groups s).
                 on_widget_change E g (Some w) (ss ! g) = (Ok (), ss ! Suc g))
           \<and> s' = (ss ! length (groups s))\<lparr>placeholder := NoPlaceholder\<rparr>))"
proof
  show "styles_for E None s = (Ok (), s\<lparr>current := None, placeholder := EmptyPlaceholder\<rparr>)"
    by (simp add: styles_for_def show_empty_def)
next
  let ?s1 = "s\<lparr>current := Some w, placeholder := LoadingPlaceholder\<rparr>"
  let ?gs = "[0..<length (groups s)]"
  have "styles_for E (Some w) s = (Ok (), s') \<longleftrightarrow>
          (\<exists>s2. notify_groups E ?gs (Some w) ?s1 = (Ok (), s2) \<and> s' = s2\<lparr>placeholder := NoPlaceholder\<rparr>)"
    by (auto simp: styles_for_def show_loading_def remove_empty_def Let_def
        split: prod.splits result.splits)
  also have "\<dots> \<longleftrightarrow> (\<exists>ss. length ss = Suc (length (groups s))
           \<and> ss ! 0 = ?s1
           \<and> (\<forall>g < length (groups s).
                 on_widget_change E g (Some w) (ss ! g) = (Ok (), ss ! Suc g))
           \<and> s' = (ss ! length (groups s))\<lparr>placeholder := NoPlaceholder\<rparr>)"
    by (auto simp: notify_groups_Ok_iff)
  finally show "styles_for E (Some w) s = (Ok (), s') \<longleftrightarrow>
        (\<exists>ss. length ss = Suc (length (groups s))
           \<and> ss ! 0 = ?s1
           \<and> (\<forall>g < length (groups s).
                 on_widget_change E g (Some w) (ss ! g) = (Ok (), ss ! Suc g))
           \<and> s' = (ss ! length (groups s))\<lparr>placeholder := NoPlaceholder\<rparr>)" .
qed


lemma styles_for_button:
  "styles_for accept (Some button_widget) init_state = (Ok (), button_selected)"
  by (simp add: button_selected_def pane_eval upt_rec)

theorem styles_for_forwards_in_order_witness:
  "styles_for accept (Some button_widget) init_state = (Ok (), button_selected)
   \<and> (\<exists>ss. length ss = 4
        \<and> ss ! 0 = init_state\<lparr>current := Some button_widget, placeholder := LoadingPlaceholder\<rparr>
        \<and> on_widget_change accept 0 (Some button_widget) (ss ! 0) = (Ok (), ss ! 1)
        \<and> on_widget_change accept 1 (Some button_widget) (ss ! 1) = (Ok (), ss ! 2)
        \<and> on_widget_change accept 2 (Some button_widget) (ss ! 2) = (Ok (), ss ! 3)
        \<and> button_selected = (ss ! 3)\<lparr>placeholder := NoPlaceholder\<rparr>)
   \<and> styles_for accept None button_selected =
        (Ok (), button_selected\<lparr>current := None, placeholder := EmptyPlaceholder\<rparr>)"
proof -
  have n: "length (groups init_state) = 3"
    by (simp add: init_state_def)
  note inst = styles_for_forwards_in_order [of accept init_state button_widget button_selected]
  from inst styles_for_button obtain ss where ss: "length ss = Suc (length (groups init_state))"
    "ss ! 0 = init_state\<lparr>current := Some button_widget, placeholder := LoadingPlaceholder\<rparr>"
    "\<forall>g < length (groups init_state).
        on_widget_change accept g (Some button_widget) (ss ! g) = (Ok (), ss ! Suc g)"
    "button_selected = (ss ! length (groups init_state))\<lparr>placeholder := NoPlaceholder\<rparr>"
    by blast
  have "length ss = 4
        \<and> ss ! 0 = init_state\<lparr>current := Some button_widget, placeholder := LoadingPlaceholder\<rparr>
        \<and> on_widget_change accept 0 (Some button_widget) (ss ! 0) = (Ok (), ss ! 1)
        \<and> on_widget_change accept 1 (Some button_widget) (ss ! 1) = (Ok (), ss ! 2)
        \<and> on_widget_change accept 2 (Some button_widget) (ss ! 2) = (Ok (), ss ! 3)
        \<and> button_selected = (ss ! 3)\<lparr>placeholder := NoPlaceholder\<rparr>"
    using ss(1,2,4) ss(3) [rule_format, of 0] ss(3) [rule_format, of 1] ss(3) [rule_format, of 2]
    unfolding n by (simp add: numeral_2_eq_2 numeral_3_eq_3)
  moreover have "styles_for accept None button_selected =
        (Ok (), button_selected\<lparr>current := None, placeholder := EmptyPlaceholder\<rparr>)"
    using styles_for_forwards_in_order [of accept button_selected] by blast
  ultimately show ?thesis using styles_for_button by blast
qed

text \<open>
  The claim as stated fails for the absent object: after a selection that shows two rows,
  deselecting leaves both rows unavailable and every group still holds the object, since
  no group is notified.
\<close>

theorem deselect_notifies_no_group:
  "map is_available (rows button_selected) = [False, False]
   \<and> map (map snd \<circ> items) (groups button_selected) = [[0], [], [1]]
   \<and> fst (styles_for accept None button_selected) = Ok ()
   \<and> map is_available (rows (snd (styles_for accept None button_selected))) = [False, False]
   \<and> map g_widget (groups (snd (styles_for accept None button_selected)))
       = [Some button_widget, Some button_widget, Some button_widget]"
  by (simp add: button_selected_def pane_eval upt_rec)

section \<open>The fast path of the layout group\<close>

lemma initialized_inv_cong: "groups s' = groups s \<Longrightarrow> initialized_inv s' = initialized_inv s"
  by (simp add: initialized_inv_def)

lemma initialized_inv_update_group:
  assumes "initialized_inv s"
    and "\<And>gr. prev_widget gr \<noteq> None \<longrightarrow> has_initialized gr \<Longrightarrow>
           prev_widget (f gr) \<noteq> None \<longrightarrow> has_initialized (f gr)"
  shows "initialized_inv (update_group g f s)"
  using assms set_update_subset_insert [of "groups s" g "f (groups s ! g)"]
  unfolding initialized_inv_def groups_update_group
  by (auto split: if_splits)

lemma initialized_inv_group_add: "initialized_inv s \<Longrightarrow> initialized_inv (group_add g r s)"
  by (auto simp: group_add_def initialized_inv_cong [of "show_item _ _"]
      intro: initialized_inv_update_group split: option.splits)

lemma initialized_inv_acquire_all:
  "initialized_inv s \<Longrightarrow> initialized_inv (snd (acquire_all E g ds s))"
proof (induction ds arbitrary: s)
  case Nil
  then show ?case by simp
next
  case (Cons pd ds)
  obtain k d where pd: "pd = (k, d)" by (cases pd)
  obtain res s' where a: "acquire E g d (Some (GroupApply g)) s = (res, s')"
    by (cases "acquire E g d (Some (GroupApply g)) s")
  have "groups s' = groups s"
    using groups_acquire [of E g d "Some (GroupApply g)" s] a by simp
  then have s': "initialized_inv s'"
    using Cons.prems by (simp add: initialized_inv_def)
  show ?case
  proof (cases res)
    case (Ok r)
    then show ?thesis
      using pd a Cons.IH [OF initialized_inv_group_add [OF s']] by simp
  next
    case (Raise e)
    then show ?thesis using pd a s' by simp
  qed
qed

lemma initialized_inv_refresh_items:
  "initialized_inv s \<Longrightarrow> initialized_inv (snd (refresh_items E g ds s))"
proof (induction ds arbitrary: s)
  case Nil
  then show ?case by simp
next
  case (Cons pd ds)
  obtain k d where pd: "pd = (k, d)" by (cases pd)
  show ?case
  proof (cases "map_of (items_of s g) k")
    case None
    then show ?thesis using pd Cons.prems by simp
  next
    case (Some r)
    obtain res s' where a: "re_purposed E r d None s = (res, s')"
      by (cases "re_purposed E r d None s")
    have "groups s' = groups s"
      using groups_row_operations(6) [of E r d None s] a by simp
    then have s': "initialized_inv s'"
      using Cons.prems by (simp add: initialized_inv_def)
    show ?thesis
      using pd Some a s' Cons.IH [OF s'] by (cases res) simp_all
  qed
qed

lemma initialized_inv_mark_initialized:
  "initialized_inv (snd out) \<Longrightarrow> initialized_inv (snd (mark_initialized g w out))"
  by (auto simp: mark_initialized_def intro: initialized_inv_update_group
      split: prod.splits result.splits)

lemma initialized_inv_style_on_widget_change:
  assumes "initialized_inv s"
  shows "initialized_inv (snd (style_on_widget_change E g w s))"
proof -
  let ?s1 = "update_group g (\<lambda>gr. gr\<lparr>g_widget := w\<rparr>) s"
  have s1: "initialized_inv ?s1"
    by (rule initialized_inv_update_group [OF assms]) simp
  have col: "initialized_inv (collapse g ?s1)"
    unfolding collapse_def
    by (rule initialized_inv_update_group) (simp_all add: initialized_inv_cong [of "clear_children _ _"] s1)
  have reb: "initialized_inv (snd (rebuild_rows E g defs ?s1))" for defs
  proof -
    have "initialized_inv (update_group g (\<lambda>gr. gr\<lparr>items := []\<rparr>) (clear_children g ?s1))"
      by (rule initialized_inv_update_group) (simp_all add: initialized_inv_cong [of "clear_children _ _"] s1)
    then show ?thesis
      by (cases defs) (simp_all add: rebuild_rows_def Let_def initialized_inv_acquire_all)
  qed
  have ref: "initialized_inv (snd (refresh_rows E g defs ?s1))" for defs
    by (cases defs) (simp_all add: refresh_rows_def s1 initialized_inv_refresh_items)
  show ?thesis
    using s1 col reb ref
    by (auto simp: style_on_widget_change_def Let_def intro!: initialized_inv_mark_initialized
        split: option.splits result.splits)
qed

lemma initialized_inv_layout_after:
  "initialized_inv (snd out) \<Longrightarrow> initialized_inv (snd (layout_after g w out))"
  by (auto simp: layout_after_def Let_def intro!: initialized_inv_update_group
      split: prod.splits result.splits option.splits)

lemma initialized_inv_on_widget_change:
  "initialized_inv s \<Longrightarrow> initialized_inv (snd (on_widget_change E g w s))"
  by (auto simp: on_widget_change_def layout_on_widget_change_def
      intro: initialized_inv_layout_after initialized_inv_style_on_widget_change
      split: option.splits)

lemma initialized_inv_notify_groups:
  "initialized_inv s \<Longrightarrow> initialized_inv (snd (notify_groups E gs w s))"
proof (induction gs arbitrary: s)
  case Nil
  then show ?case by simp
next
  case (Cons g gs)
  obtain res s' where a: "on_widget_change E g w s = (res, s')"
    by (cases "on_widget_change E g w s")
  have s': "initialized_inv s'"
    using initialized_inv_on_widget_change [OF Cons.prems, of E g w] a by simp
  show ?case using a s' Cons.IH [OF s'] by (cases res) simp_all
qed

lemma initialized_inv_styles_for:
  assumes "initialized_inv s"
  shows "initialized_inv (snd (styles_for E w s))"
proof -
  let ?s1 = "show_loading (s\<lparr>current := w\<rparr>)"
  have s1: "initialized_inv ?s1"
    using assms by (simp add: initialized_inv_def show_loading_def)
  obtain res s2 where n: "notify_groups E [0..<length (groups s)] w ?s1 = (res, s2)"
    by (cases "notify_groups E [0..<length (groups s)] w ?s1")
  have s2: "initialized_inv s2"
    using initialized_inv_notify_groups [OF s1, of E "[0..<length (groups s)]" w] n by simp
  have "initialized_inv (remove_empty s2)" "initialized_inv (show_empty (s\<lparr>current := w\<rparr>))"
    using s2 assms by (simp_all add: initialized_inv_def remove_empty_def show_empty_def)
  then show ?thesis
    using n s2 by (cases w; cases res) (simp_all add: styles_for_def Let_def)
qed

lemma reachable_initialized_inv: "reachable P s \<Longrightarrow> initialized_inv s"
proof (induction rule: reachable.induct)
  case start
  show ?case by (simp add: initialized_inv_def init_state_def new_group_def)
next
  case (select s w E)
  then show ?case by (simp add: initialized_inv_styles_for)
next
  case (layout_change s w E)
  then show ?case by (simp add: layout_for_def initialized_inv_on_widget_change)
next
  case (search_query s q)
  then show ?case by (simp add: initialized_inv_def pane_on_search_query_def)
next
  case (search_clear s)
  then show ?case by (simp add: initialized_inv_def pane_on_search_clear_def)
next
  case (edit s C L g k v)
  then show ?case by (simp add: initialized_inv_def)
qed


text \<open>
  C3. In every reachable state, for a layout group and a present new object,
  \<^verbatim>\<open>can_optimize\<close> (evaluated, as \<^verbatim>\<open>on_widget_change\<close> does, once the new object is stored
  in the group) returns the specification's predicate; \<^verbatim>\<open>on_widget_change\<close> takes the
  in-place refresh when the predicate holds and the full rebuild when any conjunct fails.
\<close>

theorem layout_can_optimize_exactly:
  assumes "reachable P s" and "get_group s g = Some gr" and "g_class gr = LayoutGroup"
  shows "can_optimize (gr\<lparr>g_widget := Some w\<rparr>) = Ok (spec_layout_can_optimize gr w)
       \<and> on_widget_change E g (Some w) s =
           layout_after g (Some w)
             (mark_initialized g (Some w)
                ((if spec_layout_can_optimize gr w then refresh_rows else rebuild_rows)
                   E g (Some (w_layout_definition w))
                   (update_group g (\<lambda>gr. gr\<lparr>g_widget := Some w\<rparr>) s)))"
proof -
  have "gr \<in> set (groups s)"
    using assms(2) by (auto simp: get_group_def split: if_splits)
  then have init: "prev_widget gr \<noteq> None \<longrightarrow> has_initialized gr"
    using reachable_initialized_inv [OF assms(1)] by (simp add: initialized_inv_def)
  have same: "same_object (Some w) (prev_widget gr) \<Longrightarrow> has_initialized gr"
    using init by (cases "prev_widget gr") (simp_all add: same_object_def)
  have co: "can_optimize (gr\<lparr>g_widget := Some w\<rparr>) = Ok (spec_layout_can_optimize gr w)"
    using assms(3) same by (auto simp: can_optimize_def spec_layout_can_optimize_def)
  have defs: "get_definition (gr\<lparr>g_widget := Some w\<rparr>) = Some (w_layout_definition w)"
    using assms(3) by (simp add: get_definition_def)
  have g1: "get_group (update_group g (\<lambda>gr. gr\<lparr>g_widget := Some w\<rparr>) s) g = Some (gr\<lparr>g_widget := Some w\<rparr>)"
    using assms(2) by (simp add: get_group_update_group)
  have "on_widget_change E g (Some w) s =
           layout_after g (Some w)
             (mark_initialized g (Some w)
                ((if spec_layout_can_optimize gr w then refresh_rows else rebuild_rows)
                   E g (Some (w_layout_definition w))
                   (update_group g (\<lambda>gr. gr\<lparr>g_widget := Some w\<rparr>) s)))"
    using assms(2,3) g1 co defs
    by (simp add: on_widget_change_def layout_on_widget_change_def style_on_widget_change_def Let_def)
  with co show ?thesis by blast
qed

lemma reachable_layout_selected: "reachable (\<lambda>_. True) layout_selected"
  unfolding layout_selected_def
  by (rule reachable.layout_change [OF reachable.start]) (simp add: admitted_def)

theorem layout_can_optimize_exactly_witness:
  "reachable (\<lambda>_. True) layout_selected
   \<and> get_group layout_selected layout_group = Some layout_group_selected
   \<and> g_class layout_group_selected = LayoutGroup
   \<and> spec_layout_can_optimize layout_group_selected plain_widget
   \<and> can_optimize (layout_group_selected\<lparr>g_widget := Some plain_widget\<rparr>) = Ok True
   \<and> on_widget_change accept layout_group (Some plain_widget) layout_selected =
        layout_after layout_group (Some plain_widget)
          (mark_initialized layout_group (Some plain_widget)
             (refresh_rows accept layout_group (Some (w_layout_definition plain_widget))
                (update_group layout_group (\<lambda>gr. gr\<lparr>g_widget := Some plain_widget\<rparr>) layout_selected)))
   \<and> \<not> spec_layout_can_optimize layout_group_selected button_widget
   \<and> on_widget_change accept layout_group (Some button_widget) layout_selected =
        layout_after layout_group (Some button_widget)
          (mark_initialized layout_group (Some button_widget)
             (rebuild_rows accept layout_group (Some (w_layout_definition button_widget))
                (update_group layout_group (\<lambda>gr. gr\<lparr>g_widget := Some button_widget\<rparr>) layout_selected)))"
proof -
  have c: "g_class layout_group_selected = LayoutGroup"
    by (simp add: layout_group_selected_def)
  have yes: "spec_layout_can_optimize layout_group_selected plain_widget"
    by (simp add: spec_layout_can_optimize_def layout_group_selected_def plain_widget_def
        class_of_strategy_def same_object_def)
  have no: "\<not> spec_layout_can_optimize layout_group_selected button_widget"
    by (simp add: spec_layout_can_optimize_def layout_group_selected_def plain_widget_def
        button_widget_def class_of_strategy_def same_object_def)
  note a = layout_can_optimize_exactly [OF reachable_layout_selected get_group_layout_selected c,
      of plain_widget accept]
  note b = layout_can_optimize_exactly [OF reachable_layout_selected get_group_layout_selected c,
      of button_widget accept]
  show ?thesis
    using reachable_layout_selected get_group_layout_selected c yes no a b by simp
qed

section \<open>Availability and the displayed rows\<close>

lemma pool_invD:
  assumes "pool_inv s" and "(p, q) \<in> set (pool s)" and "(k, r) \<in> set q"
  shows "\<exists>x. get_row s r = Some x \<and> parent x = p \<and> k = KStr (row_name x)"
  using assms by (fastforce simp: pool_inv_def split: option.splits)

lemma items_invD:
  assumes "items_inv s" and "get_group s g = Some gr" and "(k, r) \<in> set (items gr)"
  shows "\<exists>x. get_row s r = Some x \<and> parent x = g \<and> row_name x = k"
  using assms by (fastforce simp: items_inv_def split: option.splits)

lemma items_inv_distinct:
  "items_inv s \<Longrightarrow> get_group s g = Some gr \<Longrightarrow> distinct (map fst (items gr))"
  by (simp add: items_inv_def)

lemma items_invI:
  assumes "\<And>g gr. get_group s g = Some gr \<Longrightarrow> distinct (map fst (items gr))"
    and "\<And>g gr k r. get_group s g = Some gr \<Longrightarrow> (k, r) \<in> set (items gr) \<Longrightarrow>
           \<exists>x. get_row s r = Some x \<and> parent x = g \<and> row_name x = k"
  shows "items_inv s"
  unfolding items_inv_def
proof (intro allI impI conjI)
  fix g gr assume gr: "get_group s g = Some gr"
  show "distinct (map fst (items gr))" by (rule assms(1) [OF gr])
  show "\<forall>(k, r) \<in> set (items gr).
          case get_row s r of None \<Rightarrow> False | Some x \<Rightarrow> parent x = g \<and> row_name x = k"
  proof (clarify)
    fix k r assume "(k, r) \<in> set (items gr)"
    from assms(2) [OF gr this] show
      "case get_row s r of None \<Rightarrow> False | Some x \<Rightarrow> parent x = g \<and> row_name x = k"
      by auto
  qed
qed

lemma shown_invD:
  assumes "shown_inv s" and "get_row s r = Some x" and "\<not> is_available x"
  shows "\<exists>gr. get_group s (parent x) = Some gr \<and> map_of (items gr) (row_name x) = Some r"
  using assms by (fastforce simp: shown_inv_def split: option.splits)

lemma shown_invI:
  assumes "\<And>r x. get_row s r = Some x \<Longrightarrow> \<not> is_available x \<Longrightarrow>
            \<exists>gr. get_group s (parent x) = Some gr \<and> map_of (items gr) (row_name x) = Some r"
  shows "shown_inv s"
  unfolding shown_inv_def
proof (intro allI impI)
  fix r x assume "get_row s r = Some x \<and> \<not> is_available x"
  then have "\<exists>gr. get_group s (parent x) = Some gr \<and> map_of (items gr) (row_name x) = Some r"
    using assms by blast
  then show "case get_group s (parent x) of None \<Rightarrow> False
             | Some gr \<Rightarrow> map_of (items gr) (row_name x) = Some r"
    by auto
qed

text \<open>Rows may change as long as each stays under its parent and name.\<close>

lemma pool_inv_same_place:
  assumes "pool_inv s" and "pool s' = pool s"
    and "\<And>r x. get_row s r = Some x \<Longrightarrow> \<exists>y. get_row s' r = Some y \<and> same_place x y"
  shows "pool_inv s'"
  unfolding pool_inv_def
proof (clarify)
  fix p q k r
  assume "(p, q) \<in> set (pool s')" and kr: "(k, r) \<in> set q"
  then have "(p, q) \<in> set (pool s)" using assms(2) by simp
  with kr assms(1) obtain x where x: "get_row s r = Some x" "parent x = p" "k = KStr (row_name x)"
    by (fastforce simp: pool_inv_def split: option.splits)
  from assms(3) [OF x(1)] obtain y where "get_row s' r = Some y" "same_place x y" by blast
  then show "case get_row s' r of None \<Rightarrow> False | Some x \<Rightarrow> parent x = p \<and> k = KStr (row_name x)"
    using x by (simp add: same_place_def)
qed

lemma items_inv_same_place:
  assumes "items_inv s" and "\<And>g. get_group s' g = get_group s g"
    and "\<And>r x. get_row s r = Some x \<Longrightarrow> \<exists>y. get_row s' r = Some y \<and> same_place x y"
  shows "items_inv s'"
  unfolding items_inv_def
proof (intro allI impI conjI)
  fix g gr
  assume "get_group s' g = Some gr"
  then have gr: "get_group s g = Some gr" using assms(2) by simp
  then show "distinct (map fst (items gr))" using assms(1) by (simp add: items_inv_def)
  show "\<forall>(k, r) \<in> set (items gr).
          case get_row s' r of None \<Rightarrow> False | Some x \<Rightarrow> parent x = g \<and> row_name x = k"
  proof (clarify)
    fix k r assume "(k, r) \<in> set (items gr)"
    with gr assms(1) obtain x where x: "get_row s r = Some x" "parent x = g" "row_name x = k"
      by (fastforce simp: items_inv_def split: option.splits)
    from assms(3) [OF x(1)] obtain y where "get_row s' r = Some y" "same_place x y" by blast
    then show "case get_row s' r of None \<Rightarrow> False | Some x \<Rightarrow> parent x = g \<and> row_name x = k"
      using x by (simp add: same_place_def)
  qed
qed

lemma shown_inv_relax:
  assumes "shown_inv s" and "\<And>g. get_group s' g = get_group s g"
    and "\<And>r y. get_row s' r = Some y \<Longrightarrow> \<not> is_available y \<Longrightarrow>
           \<exists>x. get_row s r = Some x \<and> same_place x y \<and> \<not> is_available x"
  shows "shown_inv s'"
  unfolding shown_inv_def
proof (intro allI impI)
  fix r y assume "get_row s' r = Some y \<and> \<not> is_available y"
  with assms(3) obtain x where x: "get_row s r = Some x" "same_place x y" "\<not> is_available x"
    by blast
  with assms(1) have "case get_group s (parent x) of None \<Rightarrow> False
                      | Some gr \<Rightarrow> map_of (items gr) (row_name x) = Some r"
    by (simp add: shown_inv_def)
  then show "case get_group s' (parent y) of None \<Rightarrow> False
             | Some gr \<Rightarrow> map_of (items gr) (row_name y) = Some r"
    using x(2) assms(2) by (auto simp: same_place_def split: option.splits)
qed

lemma pane_inv_relax:
  assumes "pane_inv s" and "pool s' = pool s" and "\<And>g. get_group s' g = get_group s g"
    and "\<And>r. get_row s' r = map_option (h r) (get_row s r)"
    and "\<And>r x. get_row s r = Some x \<Longrightarrow>
           same_place x (h r x) \<and> (is_available x \<longrightarrow> is_available (h r x))"
  shows "pane_inv s'"
proof -
  have fwd: "\<exists>y. get_row s' r = Some y \<and> same_place x y" if "get_row s r = Some x" for r x
    using that assms(4) [of r] assms(5) [OF that] by simp
  have bwd: "\<exists>x. get_row s r = Some x \<and> same_place x y \<and> \<not> is_available x"
    if "get_row s' r = Some y" "\<not> is_available y" for r y
  proof -
    from that(1) assms(4) [of r] obtain x where x: "get_row s r = Some x" "y = h r x"
      by (cases "get_row s r") auto
    then show ?thesis using assms(5) [OF x(1)] that(2) by auto
  qed
  show ?thesis
    using assms(1) pool_inv_same_place [OF _ assms(2) fwd] items_inv_same_place [OF _ assms(3) fwd]
      shown_inv_relax [OF _ assms(3) bwd]
    by (simp add: pane_inv_def)
qed

lemma pane_inv_hide_item: "pane_inv s \<Longrightarrow> pane_inv (hide_item r s)"
  by (rule pane_inv_relax [where h = "\<lambda>r'. if r' = r then (\<lambda>x. x\<lparr>is_available := True\<rparr>) else (\<lambda>x. x)"])
     (auto simp: hide_item_def make_available_def get_row_update_row same_place_def option.map_ident)

lemma pane_inv_clear_children: "pane_inv s \<Longrightarrow> pane_inv (clear_children g s)"
  by (rule pane_inv_relax [where h = "\<lambda>r x. if parent x = g then x\<lparr>is_available := True\<rparr> else x"])
     (auto simp: get_row_clear_children same_place_def)

lemma pane_inv_re_purposed:
  assumes "pane_inv s" and "\<And>x. get_row s r = Some x \<Longrightarrow> row_name x = def_name d"
  shows "pane_inv (snd (re_purposed E r d cb s))"
  by (rule pane_inv_relax [OF assms(1),
        where h = "\<lambda>r'. if r' = r then (\<lambda>x. snd (re_purposed_row E d cb x)) else (\<lambda>x. x)"])
     (auto simp: snd_re_purposed get_row_update_row same_place_def re_purposed_row_keeps assms(2)
        option.map_ident)


lemma pane_inv_show_item:
  assumes "pane_inv s" and "get_group s g = Some gr" and "(k, r) \<in> set (items gr)"
  shows "pane_inv (show_item r s)"
proof -
  let ?s' = "show_item r s"
  have rows': "get_row ?s' r' =
      (if r' = r then map_option (\<lambda>x. x\<lparr>is_available := False\<rparr>) (get_row s r) else get_row s r')" for r'
    by (simp add: show_item_def make_available_def get_row_update_row)
  have grp: "get_group ?s' g' = get_group s g'" for g'
    by (simp add: show_item_def make_available_def)
  have pl: "pool ?s' = pool s"
    by (simp add: show_item_def make_available_def)
  have fwd: "\<exists>y. get_row ?s' r' = Some y \<and> same_place x y" if "get_row s r' = Some x" for r' x
    using that by (auto simp: rows' same_place_def)
  from assms obtain x where x: "get_row s r = Some x" "parent x = g" "row_name x = k"
    using items_invD [of s g gr k r] by (auto simp: pane_inv_def)
  have "distinct (map fst (items gr))"
    using assms(1,2) by (simp add: pane_inv_def items_inv_def)
  then have look: "map_of (items gr) k = Some r"
    using assms(3) by simp
  have "shown_inv ?s'"
    unfolding shown_inv_def
  proof (intro allI impI)
    fix r' y assume a: "get_row ?s' r' = Some y \<and> \<not> is_available y"
    show "case get_group ?s' (parent y) of None \<Rightarrow> False
          | Some gr \<Rightarrow> map_of (items gr) (row_name y) = Some r'"
    proof (cases "r' = r")
      case True
      then have "y = x\<lparr>is_available := False\<rparr>" using a x by (simp add: rows')
      then show ?thesis using True x assms(2) look by (simp add: grp)
    next
      case False
      then have "get_row s r' = Some y" using a by (simp add: rows')
      then show ?thesis using a assms(1) by (simp add: grp pane_inv_def shown_inv_def)
    qed
  qed
  then show ?thesis
    using assms(1) pool_inv_same_place [OF _ pl fwd] items_inv_same_place [OF _ grp fwd]
    by (simp add: pane_inv_def)
qed

lemma pane_inv_update_group:
  assumes "pane_inv s" and "\<And>gr. items (f gr) = items gr"
  shows "pane_inv (update_group g f s)"
proof -
  let ?s' = "update_group g f s"
  have fwd: "\<exists>y. get_row ?s' r = Some y \<and> same_place x y" if "get_row s r = Some x" for r x
    using that by (simp add: same_place_def)
  have "pool_inv ?s'"
    using assms(1) pool_inv_same_place [OF _ _ fwd, of s] by (simp add: pane_inv_def)
  moreover have "items_inv ?s'"
  proof (rule items_invI)
    fix g' gr assume "get_group ?s' g' = Some gr"
    then obtain gr0 where gr0: "get_group s g' = Some gr0" "items gr = items gr0"
      using assms(2) by (auto simp: get_group_update_group split: if_splits)
    show "distinct (map fst (items gr))"
      using items_inv_distinct [OF _ gr0(1)] assms(1) gr0(2) by (simp add: pane_inv_def)
    fix k r assume "(k, r) \<in> set (items gr)"
    then show "\<exists>x. get_row ?s' r = Some x \<and> parent x = g' \<and> row_name x = k"
      using items_invD [OF _ gr0(1), of k r] assms(1) gr0(2) by (simp add: pane_inv_def)
  qed
  moreover have "shown_inv ?s'"
  proof (rule shown_invI)
    fix r x assume "get_row ?s' r = Some x" "\<not> is_available x"
    then obtain gr where "get_group s (parent x) = Some gr" "map_of (items gr) (row_name x) = Some r"
      using shown_invD [of s r x] assms(1) by (auto simp: pane_inv_def)
    then show "\<exists>gr. get_group ?s' (parent x) = Some gr \<and> map_of (items gr) (row_name x) = Some r"
      using assms(2) by (auto simp: get_group_update_group)
  qed
  ultimately show ?thesis by (simp add: pane_inv_def)
qed

lemma pane_inv_clear_items:
  assumes "pane_inv s" and "\<And>r x. get_row s r = Some x \<Longrightarrow> parent x = g \<Longrightarrow> is_available x"
  shows "pane_inv (update_group g (\<lambda>gr. gr\<lparr>items := []\<rparr>) s)"
proof -
  let ?s' = "update_group g (\<lambda>gr. gr\<lparr>items := []\<rparr>) s"
  have fwd: "\<exists>y. get_row ?s' r = Some y \<and> same_place x y" if "get_row s r = Some x" for r x
    using that by (simp add: same_place_def)
  have "pool_inv ?s'"
    using assms(1) pool_inv_same_place [OF _ _ fwd, of s] by (simp add: pane_inv_def)
  moreover have "items_inv ?s'"
  proof (rule items_invI)
    fix g' gr assume a: "get_group ?s' g' = Some gr"
    then consider "g' = g" "items gr = []" | "g' \<noteq> g" "get_group s g' = Some gr"
      by (auto simp: get_group_update_group split: if_splits)
    then show "distinct (map fst (items gr))"
      using items_inv_distinct [of s g' gr] assms(1) by cases (auto simp: pane_inv_def)
    fix k r assume kr: "(k, r) \<in> set (items gr)"
    then have "g' \<noteq> g" "get_group s g' = Some gr"
      using a by (auto simp: get_group_update_group split: if_splits)
    then show "\<exists>x. get_row ?s' r = Some x \<and> parent x = g' \<and> row_name x = k"
      using items_invD [of s g' gr k r] kr assms(1) by (simp add: pane_inv_def)
  qed
  moreover have "shown_inv ?s'"
  proof (rule shown_invI)
    fix r x assume "get_row ?s' r = Some x" "\<not> is_available x"
    then have x: "get_row s r = Some x" "\<not> is_available x" by simp_all
    then have "parent x \<noteq> g" using assms(2) by blast
    then show "\<exists>gr. get_group ?s' (parent x) = Some gr \<and> map_of (items gr) (row_name x) = Some r"
      using shown_invD [OF _ x] assms(1) by (simp add: get_group_update_group pane_inv_def)
  qed
  ultimately show ?thesis by (simp add: pane_inv_def)
qed

lemma pool_entries_new_item:
  assumes "(p', q) \<in> set (pool (snd (new_item p d cb s)))" and "(k, r) \<in> set q"
  shows "(p' = p \<and> k = KStr (def_name d) \<and> r = length (rows s))
         \<or> (\<exists>q'. (p', q') \<in> set (pool s) \<and> (k, r) \<in> set q')"
proof -
  let ?inner = "case map_of (pool s) p of None \<Rightarrow> [] | Some q \<Rightarrow> q"
  let ?q = "AList.update (KStr (def_name d)) (length (rows s)) ?inner"
  have inner: "(k', r') \<in> set ?inner \<Longrightarrow> \<exists>q'. (p, q') \<in> set (pool s) \<and> (k', r') \<in> set q'" for k' r'
    by (cases "map_of (pool s) p") (auto dest: map_of_SomeD)
  from assms(1) have "(p', q) = (p, ?q) \<or> (p', q) \<in> set (pool s)"
    using set_update_subset [of p ?q "pool s"] by (auto simp: new_item_def Let_def)
  then show ?thesis
  proof
    assume eq: "(p', q) = (p, ?q)"
    with assms(2) have "(k, r) = (KStr (def_name d), length (rows s)) \<or> (k, r) \<in> set ?inner"
      using set_update_subset [of "KStr (def_name d)" "length (rows s)" ?inner] by auto
    then show ?thesis using eq inner by auto
  next
    assume "(p', q) \<in> set (pool s)"
    then show ?thesis using assms(2) by blast
  qed
qed

lemma pane_inv_new_item:
  assumes "pane_inv s"
  shows "pane_inv (snd (new_item p d cb s))"
proof -
  let ?s' = "snd (new_item p d cb s)"
  have old: "get_row ?s' r = Some x" if "get_row s r = Some x" for r x
    using that get_row_Some_less [OF that] by (simp add: get_row_new_item)
  have "pool_inv ?s'"
    unfolding pool_inv_def
  proof (clarify)
    fix p' q k r assume "(p', q) \<in> set (pool ?s')" "(k, r) \<in> set q"
    from pool_entries_new_item [OF this]
    show "case get_row ?s' r of None \<Rightarrow> False | Some x \<Rightarrow> parent x = p' \<and> k = KStr (row_name x)"
    proof
      assume "p' = p \<and> k = KStr (def_name d) \<and> r = length (rows s)"
      then show ?thesis by (simp add: get_row_new_item fresh_row_def)
    next
      assume "\<exists>q'. (p', q') \<in> set (pool s) \<and> (k, r) \<in> set q'"
      with assms obtain x where "get_row s r = Some x" "parent x = p'" "k = KStr (row_name x)"
        by (fastforce simp: pane_inv_def pool_inv_def split: option.splits)
      then show ?thesis using old by simp
    qed
  qed
  moreover have "items_inv ?s'"
    unfolding items_inv_def
  proof (intro allI impI conjI)
    fix g gr assume "get_group ?s' g = Some gr"
    then have gr: "get_group s g = Some gr" by simp
    then show "distinct (map fst (items gr))" using assms by (simp add: pane_inv_def items_inv_def)
    show "\<forall>(k, r) \<in> set (items gr).
            case get_row ?s' r of None \<Rightarrow> False | Some x \<Rightarrow> parent x = g \<and> row_name x = k"
    proof (clarify)
      fix k r assume "(k, r) \<in> set (items gr)"
      with gr assms obtain x where "get_row s r = Some x" "parent x = g" "row_name x = k"
        by (fastforce simp: pane_inv_def items_inv_def split: option.splits)
      then show "case get_row ?s' r of None \<Rightarrow> False | Some x \<Rightarrow> parent x = g \<and> row_name x = k"
        using old by simp
    qed
  qed
  moreover have "shown_inv ?s'"
    using assms
    by (auto simp: pane_inv_def shown_inv_def get_row_new_item fresh_row_def split: if_splits)
  ultimately show ?thesis by (simp add: pane_inv_def)
qed


lemma pane_inv_group_add:
  assumes "pane_inv s" and "get_row s r = Some x" and "parent x = g" and "get_group s g = Some gr"
    and "\<And>r' x'. get_row s r' = Some x' \<Longrightarrow> parent x' = g \<Longrightarrow> \<not> is_available x' \<Longrightarrow>
           r' \<noteq> r \<Longrightarrow> row_name x' \<noteq> row_name x"
  shows "pane_inv (group_add g r s)"
proof -
  let ?its = "AList.update (row_name x) r (items gr)"
  let ?s1 = "update_group g (\<lambda>gr. gr\<lparr>items := AList.update (row_name x) r (items gr)\<rparr>) s"
  have g1: "get_group ?s1 g = Some (gr\<lparr>items := ?its\<rparr>)"
    using assms(4) by (simp add: get_group_update_group)
  have fwd: "\<exists>y. get_row ?s1 r' = Some y \<and> same_place x' y" if "get_row s r' = Some x'" for r' x'
    using that by (simp add: same_place_def)
  have "pool_inv ?s1"
    using assms(1) pool_inv_same_place [OF _ _ fwd, of s] by (simp add: pane_inv_def)
  moreover have "items_inv ?s1"
  proof (rule items_invI)
    fix g' gr' assume a: "get_group ?s1 g' = Some gr'"
    then consider "g' = g" "items gr' = ?its" | "g' \<noteq> g" "get_group s g' = Some gr'"
      using assms(4) by (auto simp: get_group_update_group split: if_splits)
    then show "distinct (map fst (items gr'))"
    proof cases
      case 1
      have "distinct (map fst (items gr))"
        using items_inv_distinct [of s g gr] assms(1,4) by (simp add: pane_inv_def)
      then show ?thesis using 1 by (simp add: distinct_update)
    next
      case 2
      then show ?thesis
        using items_inv_distinct [of s g' gr'] assms(1) by (simp add: pane_inv_def)
    qed
    fix k r' assume kr: "(k, r') \<in> set (items gr')"
    from a consider "g' = g" "items gr' = ?its" | "g' \<noteq> g" "get_group s g' = Some gr'"
      using assms(4) by (auto simp: get_group_update_group split: if_splits)
    then show "\<exists>y. get_row ?s1 r' = Some y \<and> parent y = g' \<and> row_name y = k"
    proof cases
      case 1
      then have "(k, r') = (row_name x, r) \<or> (k, r') \<in> set (items gr)"
        using kr set_update_subset [of "row_name x" r "items gr"] by auto
      then show ?thesis
        using 1 assms(2,3) items_invD [of s g gr k r'] assms(1,4) by (auto simp: pane_inv_def)
    next
      case 2
      then show ?thesis
        using items_invD [of s g' gr' k r'] kr assms(1) by (simp add: pane_inv_def)
    qed
  qed
  moreover have "shown_inv ?s1"
  proof (rule shown_invI)
    fix r' x' assume "get_row ?s1 r' = Some x'" "\<not> is_available x'"
    then have x': "get_row s r' = Some x'" "\<not> is_available x'" by simp_all
    from shown_invD [OF _ x'] assms(1) obtain gr' where
      gr': "get_group s (parent x') = Some gr'" "map_of (items gr') (row_name x') = Some r'"
      by (auto simp: pane_inv_def)
    show "\<exists>gr. get_group ?s1 (parent x') = Some gr \<and> map_of (items gr) (row_name x') = Some r'"
    proof (cases "parent x' = g")
      case False
      then show ?thesis using gr' by (simp add: get_group_update_group)
    next
      case True
      then have same: "gr' = gr" using gr' assms(4) by simp
      show ?thesis
      proof (cases "r' = r")
        case True
        then have "x' = x" using x' assms(2) by simp
        then show ?thesis using True g1 assms(3) by (simp add: AList.update_conv')
      next
        case False
        then have "row_name x' \<noteq> row_name x" using assms(5) x' True by blast
        then show ?thesis using True g1 gr' same by (simp add: AList.update_conv')
      qed
    qed
  qed
  ultimately have inv1: "pane_inv ?s1" by (simp add: pane_inv_def)
  have "(row_name x, r) \<in> set ?its"
    by (rule map_of_SomeD) (simp add: AList.update_conv')
  then have "pane_inv (show_item r ?s1)"
    using pane_inv_show_item [OF inv1 g1, of "row_name x" r] by simp
  then show ?thesis using assms(2) by (simp add: group_add_def)
qed

text \<open>
  What \<open>acquire\<close> leaves of the rows: the returned row is placed under the scope and the
  name, and no row has become unavailable.
\<close>

lemma acquire_frame:
  assumes "pane_inv s" and "acquire E g d cb s = (res, s')"
  shows "pane_inv s'"
    and "\<And>g'. get_group s' g' = get_group s g'"
    and "\<And>r y. get_row s' r = Some y \<Longrightarrow> \<not> is_available y \<Longrightarrow>
           \<exists>x. get_row s r = Some x \<and> same_place x y \<and> \<not> is_available x"
    and "\<And>r. res = Ok r \<Longrightarrow> \<exists>y. get_row s' r = Some y \<and> parent y = g \<and> row_name y = def_name d"
proof -
  have "pane_inv s' \<and> (\<forall>g'. get_group s' g' = get_group s g')
      \<and> (\<forall>r y. get_row s' r = Some y \<longrightarrow> \<not> is_available y \<longrightarrow>
            (\<exists>x. get_row s r = Some x \<and> same_place x y \<and> \<not> is_available x))
      \<and> (\<forall>r. res = Ok r \<longrightarrow> (\<exists>y. get_row s' r = Some y \<and> parent y = g \<and> row_name y = def_name d))"
  proof (cases "available_row s g (def_name d)")
    case None
    then have s': "s' = snd (new_item g d cb s)" and res: "res = Ok (length (rows s))"
      using assms(2) by (simp_all add: acquire_construct)
    show ?thesis
      unfolding s' res
      using pane_inv_new_item [OF assms(1), of g d cb]
      by (auto simp: get_row_new_item fresh_row_def same_place_def split: if_splits)
  next
    case (Some rx)
    then obtain r x where a: "available_row s g (def_name d) = Some (r, x)" by (cases rx) auto
    note ar = available_row_SomeD [OF a]
    obtain q where q: "map_of (pool s) g = Some q" "map_of q (KStr (def_name d)) = Some r"
      using ar by (auto simp: pool_lookup_def split: option.splits)
    from pool_invD [OF _ map_of_SomeD [OF q(1)] map_of_SomeD [OF q(2)]] assms(1) ar
    have x: "parent x = g" "row_name x = def_name d"
      by (auto simp: pane_inv_def)
    have eq: "re_purposed E r d cb s = (res, s')"
      using assms(2) by (simp add: acquire_reuse [OF a])
    then have s': "s' = update_row r (\<lambda>x. snd (re_purposed_row E d cb x)) s"
      using snd_re_purposed [of E r d cb s] by simp
    have inv: "pane_inv s'"
      using pane_inv_re_purposed [OF assms(1), of r d E cb] ar x eq by simp
    have res: "res = Ok r' \<Longrightarrow> r' = r" for r'
      using eq ar by (auto simp: re_purposed_def split: prod.splits result.splits)
    show ?thesis
      using inv ar x res
      by (auto simp: s' get_row_update_row re_purposed_row_keeps same_place_def split: if_splits)
  qed
  then show "pane_inv s'"
    and "\<And>g'. get_group s' g' = get_group s g'"
    and "\<And>r y. get_row s' r = Some y \<Longrightarrow> \<not> is_available y \<Longrightarrow>
           \<exists>x. get_row s r = Some x \<and> same_place x y \<and> \<not> is_available x"
    and "\<And>r. res = Ok r \<Longrightarrow> \<exists>y. get_row s' r = Some y \<and> parent y = g \<and> row_name y = def_name d"
    by blast+
qed

lemma pane_inv_acquire_all:
  assumes "pane_inv s" and "get_group s g \<noteq> None" and "wf_definitions ds"
    and "\<And>r x. get_row s r = Some x \<Longrightarrow> parent x = g \<Longrightarrow> \<not> is_available x \<Longrightarrow>
           row_name x \<notin> fst ` set ds"
  shows "pane_inv (snd (acquire_all E g ds s))"
  using assms
proof (induction ds arbitrary: s)
  case Nil
  then show ?case by simp
next
  case (Cons kd ds)
  obtain k d where kd: "kd = (k, d)" by (cases kd)
  have name: "def_name d = k" and fresh: "k \<notin> fst ` set ds" and wf: "wf_definitions ds"
    using Cons.prems(3) kd by (auto simp: wf_definitions_def)
  obtain res s' where a: "acquire E g d (Some (GroupApply g)) s = (res, s')"
    by (cases "acquire E g d (Some (GroupApply g)) s")
  note fr = acquire_frame [OF Cons.prems(1) a]
  show ?case
  proof (cases res)
    case (Raise e)
    then show ?thesis using kd a fr(1) by simp
  next
    case (Ok r)
    from fr(4) [OF Ok] obtain y where y: "get_row s' r = Some y" "parent y = g" "row_name y = k"
      using name by auto
    obtain gr where gr: "get_group s' g = Some gr"
      using Cons.prems(2) fr(2) by auto
    have others: "row_name x' \<notin> fst ` set (kd # ds)"
      if "get_row s' r' = Some x'" "parent x' = g" "\<not> is_available x'" for r' x'
    proof -
      from fr(3) [OF that(1,3)] obtain x where "get_row s r' = Some x" "same_place x x'"
        "\<not> is_available x" by blast
      then show ?thesis using Cons.prems(4) [of r' x] that(2) by (simp add: same_place_def)
    qed
    have inv: "pane_inv (group_add g r s')"
    proof (rule pane_inv_group_add [OF fr(1) y(1,2) gr])
      fix r' x' assume "get_row s' r' = Some x'" "parent x' = g" "\<not> is_available x'" "r' \<noteq> r"
      then show "row_name x' \<noteq> row_name y" using others [of r' x'] y(3) kd by auto
    qed
    have grp: "get_group (group_add g r s') g \<noteq> None"
      using gr by (simp add: get_group_group_add_None)
    have rest: "row_name x' \<notin> fst ` set ds"
      if "get_row (group_add g r s') r' = Some x'" "parent x' = g" "\<not> is_available x'" for r' x'
    proof (cases "r' = r")
      case True
      then have "row_name x' = k" using that(1) y by (auto simp: get_row_group_add)
      then show ?thesis using fresh by simp
    next
      case False
      then have "get_row s' r' = Some x'" using that(1) by (simp add: get_row_group_add)
      then show ?thesis using others [of r' x'] that(2,3) by auto
    qed
    show ?thesis
      using Cons.IH [OF inv grp wf rest] kd a Ok by simp
  qed
qed


lemma pane_inv_refresh_items:
  assumes "pane_inv s" and "wf_definitions ds"
  shows "pane_inv (snd (refresh_items E g ds s))"
  using assms
proof (induction ds arbitrary: s)
  case Nil
  then show ?case by simp
next
  case (Cons kd ds)
  obtain k d where kd: "kd = (k, d)" by (cases kd)
  have name: "def_name d = k" and wf: "wf_definitions ds"
    using Cons.prems(2) kd by (auto simp: wf_definitions_def)
  show ?case
  proof (cases "map_of (items_of s g) k")
    case None
    then show ?thesis using kd Cons.prems(1) by simp
  next
    case (Some r)
    then obtain gr where gr: "get_group s g = Some gr" "(k, r) \<in> set (items gr)"
      by (auto simp: items_of_def split: option.splits dest: map_of_SomeD)
    from items_invD [OF _ gr] Cons.prems(1) obtain x where
      x: "get_row s r = Some x" "row_name x = k"
      by (auto simp: pane_inv_def)
    obtain res s' where a: "re_purposed E r d None s = (res, s')"
      by (cases "re_purposed E r d None s")
    have s': "pane_inv s'"
      using pane_inv_re_purposed [where E = E and cb = None and r = r and d = d, OF Cons.prems(1)]
        x name a by simp
    show ?thesis
      using kd Some a s' Cons.IH [OF s' wf] by (cases res) simp_all
  qed
qed

lemma wf_get_definition:
  assumes "g_widget gr = w" and "admitted wf_widget w" and "get_definition gr = Some ds"
  shows "wf_definitions ds"
  using assms
  by (auto simp: get_definition_def admitted_def wf_widget_def wf_definitions_def
      split: group_class.splits option.splits)

lemma pane_inv_mark_initialized:
  "pane_inv (snd out) \<Longrightarrow> pane_inv (snd (mark_initialized g w out))"
  by (auto simp: mark_initialized_def intro: pane_inv_update_group
      split: prod.splits result.splits)

lemma pane_inv_rebuild_rows:
  assumes "pane_inv s" and "get_group s g \<noteq> None"
    and "\<And>ds. defs = Some ds \<Longrightarrow> wf_definitions ds"
  shows "pane_inv (snd (rebuild_rows E g defs s))"
proof -
  let ?s1 = "clear_children g s"
  let ?s2 = "update_group g (\<lambda>gr. gr\<lparr>items := []\<rparr>) ?s1"
  have avail: "is_available x" if "get_row ?s1 r = Some x" "parent x = g" for r x
  proof (cases "get_row s r")
    case None
    then show ?thesis using that(1) by (simp add: get_row_clear_children)
  next
    case (Some x0)
    then have x: "x = (if parent x0 = g then x0\<lparr>is_available := True\<rparr> else x0)"
      using that(1) by (simp add: get_row_clear_children)
    show ?thesis
    proof (cases "parent x0 = g")
      case True
      then show ?thesis using x by simp
    next
      case False
      then show ?thesis using x that(2) by simp
    qed
  qed
  have inv2: "pane_inv ?s2"
    by (rule pane_inv_clear_items [OF pane_inv_clear_children [OF assms(1)] avail])
  have g2: "get_group ?s2 g \<noteq> None"
    using assms(2) by (simp add: get_group_update_group)
  have none: "row_name x \<notin> fst ` set ds"
    if "get_row ?s2 r = Some x" "parent x = g" "\<not> is_available x" for r x ds
    using that avail [of r x] by simp
  show ?thesis
  proof (cases defs)
    case None
    then show ?thesis using inv2 by (simp add: rebuild_rows_def Let_def)
  next
    case (Some ds)
    then show ?thesis
      using pane_inv_acquire_all [where E = E, OF inv2 g2 assms(3) [OF Some] none]
      by (simp add: rebuild_rows_def Let_def)
  qed
qed

lemma pane_inv_style_on_widget_change:
  assumes "pane_inv s" and "admitted wf_widget w"
  shows "pane_inv (snd (style_on_widget_change E g w s))"
proof -
  let ?s1 = "update_group g (\<lambda>gr. gr\<lparr>g_widget := w\<rparr>) s"
  have s1: "pane_inv ?s1"
    by (rule pane_inv_update_group [OF assms(1)]) simp
  show ?thesis
  proof (cases w)
    case None
    have "pane_inv (collapse g ?s1)"
      unfolding collapse_def
      by (rule pane_inv_update_group [OF pane_inv_clear_children [OF s1]]) simp
    then show ?thesis using None by (simp add: style_on_widget_change_def Let_def)
  next
    case (Some wd)
    show ?thesis
    proof (cases "get_group ?s1 g")
      case None
      then show ?thesis using Some s1 by (simp add: style_on_widget_change_def Let_def)
    next
      case gr: (Some gr)
      then have "g_widget gr = w"
        by (auto simp: get_group_update_group split: if_splits)
      then have wf: "\<And>ds. get_definition gr = Some ds \<Longrightarrow> wf_definitions ds"
        using wf_get_definition [OF _ assms(2)] by blast
      have ref: "pane_inv (snd (refresh_rows E g (get_definition gr) ?s1))"
        using s1 wf pane_inv_refresh_items [where E = E and g = g, OF s1]
        by (cases "get_definition gr") (simp_all add: refresh_rows_def)
      have reb: "pane_inv (snd (rebuild_rows E g (get_definition gr) ?s1))"
        using pane_inv_rebuild_rows [where E = E and g = g and defs = "get_definition gr", OF s1 _ wf] gr
        by simp
      show ?thesis
        using Some gr s1 ref reb
        by (cases "can_optimize gr")
           (simp_all add: style_on_widget_change_def Let_def pane_inv_mark_initialized)
    qed
  qed
qed

lemma pane_inv_layout_after:
  "pane_inv (snd out) \<Longrightarrow> pane_inv (snd (layout_after g w out))"
  by (auto simp: layout_after_def Let_def intro!: pane_inv_update_group
      split: prod.splits result.splits option.splits)

lemma pane_inv_on_widget_change:
  "pane_inv s \<Longrightarrow> admitted wf_widget w \<Longrightarrow> pane_inv (snd (on_widget_change E g w s))"
  by (auto simp: on_widget_change_def layout_on_widget_change_def
      intro: pane_inv_layout_after pane_inv_style_on_widget_change
      split: option.splits)

lemma pane_inv_notify_groups:
  "pane_inv s \<Longrightarrow> admitted wf_widget w \<Longrightarrow> pane_inv (snd (notify_groups E gs w s))"
proof (induction gs arbitrary: s)
  case Nil
  then show ?case by simp
next
  case (Cons g gs)
  obtain res s' where a: "on_widget_change E g w s = (res, s')"
    by (cases "on_widget_change E g w s")
  have s': "pane_inv s'"
    using pane_inv_on_widget_change [where E = E and g = g, OF Cons.prems] a by simp
  show ?case using a s' Cons.IH [OF s' Cons.prems(2)] by (cases res) simp_all
qed

lemma pane_inv_other_fields [simp]:
  "pane_inv (s\<lparr>current := w\<rparr>) = pane_inv s"
  "pane_inv (s\<lparr>placeholder := ph\<rparr>) = pane_inv s"
  "pane_inv (s\<lparr>log_entries := l\<rparr>) = pane_inv s"
  by (simp_all add: pane_inv_def pool_inv_def items_inv_def shown_inv_def)

lemma pane_inv_styles_for:
  assumes "pane_inv s" and "admitted wf_widget w"
  shows "pane_inv (snd (styles_for E w s))"
proof -
  let ?s1 = "show_loading (s\<lparr>current := w\<rparr>)"
  have s1: "pane_inv ?s1"
    using assms(1) by (simp add: show_loading_def)
  obtain res s2 where n: "notify_groups E [0..<length (groups s)] w ?s1 = (res, s2)"
    by (cases "notify_groups E [0..<length (groups s)] w ?s1")
  have s2: "pane_inv s2"
    using pane_inv_notify_groups [where E = E and gs = "[0..<length (groups s)]", OF s1 assms(2)] n
    by simp
  show ?thesis
    using n s2 assms(1)
    by (cases w; cases res) (simp_all add: styles_for_def Let_def remove_empty_def show_empty_def)
qed

lemma pane_inv_filter_item:
  assumes "pane_inv s" and "get_group s g = Some gr" and "(k, r) \<in> set (items gr)"
  shows "pane_inv (filter_item q r s)"
  using assms pane_inv_show_item [OF assms] pane_inv_hide_item [OF assms(1), of r]
  by (simp add: filter_item_def split: option.splits)

lemma pane_inv_fold_filter_item:
  assumes "pane_inv s" and "get_group s g = Some gr" and "set krs \<subseteq> set (items gr)"
  shows "pane_inv (fold (filter_item q) (map snd krs) s)"
  using assms
proof (induction krs arbitrary: s)
  case Nil
  then show ?case by simp
next
  case (Cons kr krs)
  obtain k r where kr: "kr = (k, r)" by (cases kr)
  have "pane_inv (filter_item q r s)"
    using pane_inv_filter_item [OF Cons.prems(1,2), of k r] Cons.prems(3) kr by simp
  then show ?case
    using Cons.IH [of "filter_item q r s"] Cons.prems(2,3) kr by simp
qed

lemma pane_inv_group_on_search_query:
  assumes "pane_inv s"
  shows "pane_inv (group_on_search_query q g s)"
proof (cases "get_group s g")
  case None
  then show ?thesis using assms by (simp add: group_on_search_query_def items_of_def)
next
  case (Some gr)
  then show ?thesis
    using pane_inv_fold_filter_item [where krs = "items gr" and q = q, OF assms Some]
    by (simp add: group_on_search_query_def items_of_def)
qed

lemma pane_inv_fold_search_query:
  "pane_inv s \<Longrightarrow> pane_inv (fold (group_on_search_query q) gs s)"
  by (induction gs arbitrary: s) (simp_all add: pane_inv_group_on_search_query)

lemma pane_inv_fold_search_clear:
  "pane_inv s \<Longrightarrow> pane_inv (fold group_on_search_clear gs s)"
  by (induction gs arbitrary: s)
     (simp_all add: group_on_search_clear_def pane_inv_group_on_search_query)

lemma pane_inv_group_apply: "pane_inv s \<Longrightarrow> pane_inv (snd (group_apply C L g k v s))"
  by (simp add: group_apply_def apply_style_def apply_layout_def log_error_def
      split: option.splits)

lemma reachable_pane_inv: "reachable wf_widget s \<Longrightarrow> pane_inv s"
proof (induction rule: reachable.induct)
  case start
  show ?case
    by (simp add: pane_inv_def pool_inv_def items_inv_def shown_inv_def init_state_def
        get_row_def get_group_def new_group_def nth_Cons split: nat.splits)
next
  case (select s w E)
  then show ?case by (simp add: pane_inv_styles_for)
next
  case (layout_change s w E)
  then show ?case by (simp add: layout_for_def pane_inv_on_widget_change)
next
  case (search_query s q)
  then show ?case by (simp add: pane_on_search_query_def pane_inv_fold_search_query)
next
  case (search_clear s)
  then show ?case by (simp add: pane_on_search_clear_def pane_inv_fold_search_clear)
next
  case (edit s C L g k v)
  then show ?case by (simp add: pane_inv_group_apply)
qed


lemma reachable_button_selected: "reachable wf_widget button_selected"
  unfolding button_selected_def
  by (rule reachable.select [OF reachable.start]) (simp add: admitted_def wf_button_widget)

lemma get_row_button_selected:
  "get_row button_selected 0 = Some ((fresh_row 0 id_definition (Some (GroupApply 0)))\<lparr>is_available := False\<rparr>)"
  by (simp add: button_selected_def fresh_row_def pane_eval upt_rec)

text \<open>
  C2 (amended). In every state the pane reaches when the selected objects store each
  definition under its own name, a row whose available flag is false is a member of the
  \<open>items\<close> of the group it is placed under, under the row's name; so a row that is in no
  group's \<open>items\<close> is available.
\<close>

theorem unavailable_row_is_displayed:
  assumes "reachable wf_widget s" and "get_row s r = Some x" and "\<not> is_available x"
  shows "\<exists>gr. get_group s (parent x) = Some gr \<and> map_of (items gr) (row_name x) = Some r"
proof -
  have "shown_inv s"
    using reachable_pane_inv [OF assms(1)] by (simp add: pane_inv_def)
  then show ?thesis by (rule shown_invD [OF _ assms(2,3)])
qed

theorem unavailable_row_is_displayed_witness:
  "reachable wf_widget button_selected
   \<and> get_row button_selected 0 = Some ((fresh_row 0 id_definition (Some (GroupApply 0)))\<lparr>is_available := False\<rparr>)
   \<and> \<not> is_available ((fresh_row 0 id_definition (Some (GroupApply 0)))\<lparr>is_available := False\<rparr>)
   \<and> (\<exists>gr. get_group button_selected 0 = Some gr \<and> map_of (items gr) ''id'' = Some 0)"
proof -
  have "\<exists>gr. get_group button_selected
               (parent ((fresh_row 0 id_definition (Some (GroupApply 0)))\<lparr>is_available := False\<rparr>)) = Some gr
          \<and> map_of (items gr)
               (row_name ((fresh_row 0 id_definition (Some (GroupApply 0)))\<lparr>is_available := False\<rparr>)) = Some 0"
    by (rule unavailable_row_is_displayed [OF reachable_button_selected get_row_button_selected]) simp
  then have "\<exists>gr. get_group button_selected 0 = Some gr \<and> map_of (items gr) ''id'' = Some 0"
    by (simp add: fresh_row_def id_definition_def)
  then show ?thesis
    using reachable_button_selected get_row_button_selected by simp
qed

text \<open>
  The converse, which the claim states as well, fails: a filter query hides the rows
  whose label does not contain the query and keeps them in \<open>items\<close>, so after it the row
  of the identity group is available and still a member of \<open>items\<close>.
\<close>

theorem filtered_row_is_available_and_displayed:
  "reachable wf_widget (pane_on_search_query ''zzz'' button_selected)
   \<and> map_of (items_of (pane_on_search_query ''zzz'' button_selected) 0) ''id'' = Some 0
   \<and> map_option is_available (get_row (pane_on_search_query ''zzz'' button_selected) 0) = Some True"
proof -
  have "map_of (items_of (pane_on_search_query ''zzz'' button_selected) 0) ''id'' = Some 0
   \<and> map_option is_available (get_row (pane_on_search_query ''zzz'' button_selected) 0) = Some True"
    by (simp add: button_selected_def pane_on_search_query_def group_on_search_query_def
        filter_item_def pane_eval upt_rec)
  then show ?thesis
    using reachable.search_query [OF reachable_button_selected, of "''zzz''"] by simp
qed

end
